theory Spec2Isabelle
  imports Main "HOL-Library.Word" "HOL-Library.Sublist" "HOL-Library.Multiset"
    "HOL-Library.Product_Lexorder"
begin

section \<open>Errors\<close>

text \<open>
  A Go \<open>error\<close> is \<open>nil\<close> or a value with a text. \<open>nil\<close> is \<open>None\<close>. The package-level
  sentinels (\<open>ErrTimeout\<close>, \<open>ErrPartialWrite\<close>, \<open>ErrWriteFailed\<close> of points_writer.go
  and \<open>tsdb.ErrShardNotFound\<close>) are compared by identity in the source, so each is a
  constructor of its own, as is the error that \<open>influxcloud.ErrRetentionPolicyNotFound\<close>
  builds; \<open>New s\<close> is any other error value (\<open>errors.New\<close>,
  \<open>fmt.Errorf\<close>, an error of a collaborator) with text \<open>s\<close>.
\<close>

type_synonym uint64 = "64 word"

datatype error =
    ErrTimeout
  | ErrPartialWrite
  | ErrWriteFailed
  | ErrShardNotFound
  | ErrRetentionPolicyNotFound string
  | New string

text \<open>
  \<open>err.Error()\<close>. The three texts of points_writer.go are lines 20, 24 and 27; the text
  of \<open>tsdb.ErrShardNotFound\<close> is the one of the imported influxdb package.

  Modelled from the spec: \<open>influxcloud.ErrRetentionPolicyNotFound\<close> is not under src/; the
  specification names the error \<open>RetentionPolicyNotFound\<close> and no more, and nothing below
  reads its text.
\<close>

fun Error :: "error \<Rightarrow> string" where
  "Error ErrTimeout = ''timeout''"
| "Error ErrPartialWrite = ''partial write''"
| "Error ErrWriteFailed = ''write failed''"
| "Error ErrShardNotFound = ''shard not found''"
| "Error (ErrRetentionPolicyNotFound name) = ''retention policy not found: '' @ name"
| "Error (New s) = s"

text \<open>\<open>strings.Contains s substr\<close>: some suffix of \<open>s\<close> starts with \<open>substr\<close>.\<close>

fun Contains :: "string \<Rightarrow> string \<Rightarrow> bool" where
  "Contains [] substr = (substr = [])"
| "Contains (c # cs) substr = (prefix substr (c # cs) \<or> Contains cs substr)"

text \<open>\<open>isRetryable\<close>, points_writer.go lines 389-398.\<close>

definition isRetryable :: "error option \<Rightarrow> bool" where
  "isRetryable err =
     (case err of
        None \<Rightarrow> True
      | Some e \<Rightarrow> if Contains (Error e) ''field type conflict'' then False else True)"

section \<open>Shards, points and consistency levels\<close>

datatype ConsistencyLevel =
    ConsistencyLevelAny
  | ConsistencyLevelOne
  | ConsistencyLevelQuorum
  | ConsistencyLevelAll

record ShardOwner =
  NodeID :: uint64

record ShardInfo =
  ID :: uint64
  Owners :: "ShardOwner list"

text \<open>
  A point, as far as this file reads it: \<open>p.Time()\<close> in nanoseconds and \<open>p.HashID()\<close>;
  \<open>Key\<close> stands for the rest (measurement, tags, fields).
\<close>

record Point =
  Key :: string
  Time :: int
  HashID :: uint64

section \<open>writeToShard\<close>

text \<open>
  The required number of acknowledgements, lines 287-293: \<open>len(shard.Owners)\<close>, replaced
  by 1 at ANY and ONE and by \<open>required/2 + 1\<close> at QUORUM; the \<open>switch\<close> has no other case,
  so ALL keeps the number of owners.
\<close>

definition required :: "ConsistencyLevel \<Rightarrow> nat \<Rightarrow> nat" where
  "required consistency n =
     (case consistency of
        ConsistencyLevelAny \<Rightarrow> 1
      | ConsistencyLevelOne \<Rightarrow> 1
      | ConsistencyLevelQuorum \<Rightarrow> n div 2 + 1
      | ConsistencyLevelAll \<Rightarrow> n)"

record AsyncWriteResult =
  Owner :: ShardOwner
  Err :: "error option"

text \<open>
  The collaborators of a \<open>PointsWriter\<close> that \<open>writeToShard\<close> uses: the local node and the
  outcome of each call of \<open>TSDBStore.WriteToShard\<close>, \<open>ShardWriter.WriteShard\<close> and
  \<open>HintedHandoff.WriteShard\<close>. A worker's calls are recorded in the order it makes them.
\<close>

record PointsWriter =
  Node_ID :: uint64
  TSDBStore_WriteToShard :: "uint64 \<Rightarrow> Point list \<Rightarrow> error option"
  ShardWriter_WriteShard :: "uint64 \<Rightarrow> uint64 \<Rightarrow> Point list \<Rightarrow> error option"
  HintedHandoff_WriteShard :: "uint64 \<Rightarrow> uint64 \<Rightarrow> Point list \<Rightarrow> error option"

datatype call =
    CallTSDBStore uint64 "Point list"
  | CallShardWriter uint64 uint64 "Point list"
  | CallHintedHandoff uint64 uint64 "Point list"

text \<open>
  What one goroutine does: the results it sends to the channel \<open>ch\<close> and the calls it makes.
\<close>

type_synonym worker = "AsyncWriteResult list \<times> call list"

text \<open>The first goroutine of an owner, lines 306-318: the local attempt.\<close>

definition localAttempt :: "PointsWriter \<Rightarrow> uint64 \<Rightarrow> ShardOwner \<Rightarrow> Point list \<Rightarrow> worker" where
  "localAttempt w shardID owner points =
     (if Node_ID w \<noteq> NodeID owner then ([], [])
      else
        let err = TSDBStore_WriteToShard w shardID points
        in ([\<lparr>Owner = owner, Err = err\<rparr>], [CallTSDBStore shardID points]))"

text \<open>The second goroutine of an owner, lines 321-343: the remote attempt.\<close>

definition remoteAttempt ::
  "PointsWriter \<Rightarrow> ConsistencyLevel \<Rightarrow> uint64 \<Rightarrow> ShardOwner \<Rightarrow> Point list \<Rightarrow> worker" where
  "remoteAttempt w consistency shardID owner points =
     (if Node_ID w \<noteq> NodeID owner then
        let err = ShardWriter_WriteShard w shardID (NodeID owner) points
        in
          if err \<noteq> None \<and> isRetryable err then
            let hherr = HintedHandoff_WriteShard w shardID (NodeID owner) points;
                calls = [CallShardWriter shardID (NodeID owner) points,
                         CallHintedHandoff shardID (NodeID owner) points]
            in
              if hherr \<noteq> None then ([\<lparr>Owner = owner, Err = hherr\<rparr>], calls)
              else if hherr = None \<and> consistency = ConsistencyLevelAny
                then ([\<lparr>Owner = owner, Err = None\<rparr>], calls)
              else ([\<lparr>Owner = owner, Err = err\<rparr>], calls)
          else ([\<lparr>Owner = owner, Err = err\<rparr>], [CallShardWriter shardID (NodeID owner) points])
      else ([], []))"

text \<open>
  The loop of lines 305-345 starts both goroutines for every owner, in the order of
  \<open>shard.Owners\<close>.
\<close>

definition spawn :: "PointsWriter \<Rightarrow> ConsistencyLevel \<Rightarrow> ShardInfo \<Rightarrow> Point list \<Rightarrow> worker list" where
  "spawn w consistency shard points =
     concat (map (\<lambda>owner. [localAttempt w (ID shard) owner points,
                            remoteAttempt w consistency (ID shard) owner points])
                 (Owners shard))"

text \<open>
  What one \<open>select\<close> of lines 351-375 takes: the closing channel, the timer, or the next
  result on \<open>ch\<close>. The sequence of these is the environment's choice.
\<close>

datatype event = Closing | Timeout | Result AsyncWriteResult

text \<open>
  The receive loop, lines 347-386: one \<open>select\<close> for each owner, then the classification
  of lines 378-386. It returns the error (\<open>None\<close> is \<open>nil\<close>) and the number of results
  received. The timer of \<open>time.After\<close> always fires, so a \<open>select\<close> for which the
  environment has nothing else takes the timeout.
\<close>

fun collect ::
  "nat \<Rightarrow> ShardOwner list \<Rightarrow> nat \<Rightarrow> error option \<Rightarrow> nat \<Rightarrow> event list \<Rightarrow> error option \<times> nat" where
  "collect req [] wrote writeError rcvd events =
     (if wrote > 0 then (Some ErrPartialWrite, rcvd)
      else if writeError \<noteq> None
        then (Some (New (''write failed: '' @ Error (the writeError))), rcvd)
      else (Some ErrWriteFailed, rcvd))"
| "collect req (owner # owners) wrote writeError rcvd [] = (Some ErrTimeout, rcvd)"
| "collect req (owner # owners) wrote writeError rcvd (Closing # events) =
     (Some ErrWriteFailed, rcvd)"
| "collect req (owner # owners) wrote writeError rcvd (Timeout # events) =
     (Some ErrTimeout, rcvd)"
| "collect req (owner # owners) wrote writeError rcvd (Result result # events) =
     (if Err result \<noteq> None then
        collect req owners wrote
          (if writeError = None then Err result else writeError) (Suc rcvd) events
      else if wrote + 1 \<ge> req then (None, Suc rcvd)
      else collect req owners (wrote + 1) writeError (Suc rcvd) events)"

record Outcome =
  returned :: "error option"
  received :: nat
  workers :: "worker list"

text \<open>\<open>writeToShard\<close>, lines 285-387.\<close>

definition writeToShard ::
  "PointsWriter \<Rightarrow> ShardInfo \<Rightarrow> string \<Rightarrow> string \<Rightarrow> ConsistencyLevel \<Rightarrow> Point list
     \<Rightarrow> event list \<Rightarrow> Outcome" where
  "writeToShard w shard database retentionPolicy consistency points events =
     (let ws = spawn w consistency shard points;
          (err, n) = collect (required consistency (length (Owners shard))) (Owners shard)
                       0 None 0 events
      in \<lparr>returned = err, received = n, workers = ws\<rparr>)"

text \<open>
  The words of the specification about the receive loop: the results received before a
  timeout or the shutdown, among the \<open>n\<close> \<open>select\<close>s; how many of them carry no error;
  and the first error among them.
\<close>

fun isResult :: "event \<Rightarrow> bool" where
  "isResult (Result r) = True"
| "isResult e = False"

fun isSuccess :: "event \<Rightarrow> bool" where
  "isSuccess (Result r) = (Err r = None)"
| "isSuccess e = False"

definition results_before_stop :: "nat \<Rightarrow> event list \<Rightarrow> event list" where
  "results_before_stop n events = takeWhile isResult (take n events)"

definition owner_successes :: "nat \<Rightarrow> event list \<Rightarrow> nat" where
  "owner_successes n events = length (filter isSuccess (results_before_stop n events))"

fun first_error :: "event list \<Rightarrow> error option" where
  "first_error [] = None"
| "first_error (Result r # es) = (if Err r \<noteq> None then Err r else first_error es)"
| "first_error (e # es) = first_error es"

text \<open>Whether a recorded call is a call of \<open>HintedHandoff.WriteShard\<close>.\<close>

fun isHandoff :: "call \<Rightarrow> bool" where
  "isHandoff (CallHintedHandoff s n ps) = True"
| "isHandoff c = False"

subsection \<open>A writer, a shard and a run of the receive loop, for the examples\<close>

text \<open>
  Node 1 writes to a shard replicated on nodes 1, 2 and 3: the local write succeeds, node 2
  refuses the connection and node 3 reports a field type conflict; hinted handoff accepts
  every write.
\<close>

definition ex_writer :: PointsWriter where
  "ex_writer =
     \<lparr>Node_ID = 1,
      TSDBStore_WriteToShard = (\<lambda>shardID points. None),
      ShardWriter_WriteShard = (\<lambda>shardID nodeID points.
         if nodeID = 2 then Some (New ''connection refused'')
         else if nodeID = 3 then Some (New ''input field type conflict'')
         else None),
      HintedHandoff_WriteShard = (\<lambda>shardID nodeID points. None)\<rparr>"

definition ex_shard :: ShardInfo where
  "ex_shard = \<lparr>ID = 7, Owners = [\<lparr>NodeID = 1\<rparr>, \<lparr>NodeID = 2\<rparr>, \<lparr>NodeID = 3\<rparr>]\<rparr>"

definition ex_events :: "event list" where
  "ex_events =
     [Result \<lparr>Owner = \<lparr>NodeID = 3\<rparr>, Err = Some (New ''input field type conflict'')\<rparr>,
      Result \<lparr>Owner = \<lparr>NodeID = 1\<rparr>, Err = None\<rparr>,
      Result \<lparr>Owner = \<lparr>NodeID = 2\<rparr>, Err = Some (New ''connection refused'')\<rparr>]"

section \<open>The shard-group list\<close>

text \<open>
  \<open>meta.ShardGroupInfo\<close>, as far as this file reads it: the group covers the times from
  \<open>StartTime\<close> (included) to \<open>EndTime\<close> (excluded), in nanoseconds.
\<close>

record ShardGroupInfo =
  SG_ID :: uint64
  StartTime :: int
  EndTime :: int
  SG_Shards :: "ShardInfo list"

type_synonym sgList = "ShardGroupInfo list"

text \<open>
  \<open>sort.Search n f\<close> of the Go library: binary search for the least index in \<open>[0, n)\<close>
  at which \<open>f\<close> is true, \<open>n\<close> when there is none, for an \<open>f\<close> that is false and then
  true. The loop keeps \<open>i \<le> j\<close> and halves the distance.
\<close>

function Search_loop :: "(nat \<Rightarrow> bool) \<Rightarrow> nat \<Rightarrow> nat \<Rightarrow> nat" where
  "Search_loop f i j =
     (if i < j then
        let h = (i + j) div 2
        in if \<not> f h then Search_loop f (h + 1) j else Search_loop f i h
      else i)"
  by pat_completeness auto
termination
  by (relation "measure (\<lambda>(f, i, j). j - i)") auto

definition Search :: "nat \<Rightarrow> (nat \<Rightarrow> bool) \<Rightarrow> nat" where
  "Search n f = Search_loop f 0 n"

text \<open>\<open>sgList.ShardGroupAt\<close>, lines 223-231. \<open>None\<close> is the \<open>nil\<close> pointer.\<close>

definition ShardGroupAt :: "sgList \<Rightarrow> int \<Rightarrow> ShardGroupInfo option" where
  "ShardGroupAt l t =
     (let idx = Search (length l) (\<lambda>i. EndTime (l ! i) > t)
      in if idx = length l \<or> t < StartTime (l ! idx) then None else Some (l ! idx))"

text \<open>\<open>sgList.Covers\<close>, lines 207-212.\<close>

definition Covers :: "sgList \<Rightarrow> int \<Rightarrow> bool" where
  "Covers l t = (if length l = 0 then False else ShardGroupAt l t \<noteq> None)"

text \<open>
  Modelled from the spec: \<open>meta.ShardGroupInfos.Less\<close>, the order of \<open>sort.Sort\<close> in
  \<open>sgList.Append\<close>, is not under src/. The specification and the comment of lines 217-222
  give it: first by end time, then by start time.
\<close>

definition Less :: "ShardGroupInfo \<Rightarrow> ShardGroupInfo \<Rightarrow> bool" where
  "Less a b = (if EndTime a = EndTime b then StartTime a < StartTime b else EndTime a < EndTime b)"

text \<open>A list as \<open>sort.Sort\<close> leaves it: no later element is \<open>Less\<close> than an earlier one.\<close>

definition sorted_sgList :: "sgList \<Rightarrow> bool" where
  "sorted_sgList l = sorted_wrt (\<lambda>a b. \<not> Less b a) l"

text \<open>
  \<open>sgList.Append\<close>, lines 234-238. \<open>sort.Sort\<close> is not stable, so the sorted permutation
  that it returns is a parameter.
\<close>

definition Append :: "(sgList \<Rightarrow> sgList) \<Rightarrow> sgList \<Rightarrow> ShardGroupInfo \<Rightarrow> sgList" where
  "Append sort_Sort l sgi = sort_Sort (l @ [sgi])"

text \<open>The words of the specification: a group contains a time.\<close>

definition contains_time :: "ShardGroupInfo \<Rightarrow> int \<Rightarrow> bool" where
  "contains_time g t = (StartTime g \<le> t \<and> t < EndTime g)"

text \<open>Two groups that cover the same interval or disjoint intervals do not overlap.\<close>

definition compatible :: "ShardGroupInfo \<Rightarrow> ShardGroupInfo \<Rightarrow> bool" where
  "compatible g g' =
     ((StartTime g = StartTime g' \<and> EndTime g = EndTime g')
      \<or> EndTime g \<le> StartTime g' \<or> EndTime g' \<le> StartTime g)"

section \<open>The shard mapping\<close>

text \<open>
  A Go slice, as far as \<open>MapPoint\<close> reads it: its elements and its capacity. The \<open>nil\<close>
  slice, which a map returns for a missing key, has no element and capacity 0.
\<close>

type_synonym slice = "Point list \<times> nat"

definition slice_at :: "(uint64 \<rightharpoonup> slice) \<Rightarrow> uint64 \<Rightarrow> slice" where
  "slice_at m k = (case m k of None \<Rightarrow> ([], 0) | Some b \<Rightarrow> b)"

text \<open>
  \<open>append\<close> of one element. Within the capacity the capacity stays; beyond it the Go
  runtime allocates a larger array, with some capacity that holds the new length: here
  the double of the old one, and at least the new length. The runtime may round to
  another capacity; what follows uses only that the capacity does not shrink.
\<close>

definition append1 :: "slice \<Rightarrow> Point \<Rightarrow> slice" where
  "append1 b p =
     (if length (fst b) < snd b then (fst b @ [p], snd b)
      else (fst b @ [p], max (2 * snd b) (length (fst b) + 1)))"

text \<open>\<open>ShardMapping\<close>, lines 87-91; the field \<open>n\<close> is \<open>sm_n\<close> here.\<close>

record ShardMapping =
  sm_n :: nat
  Points :: "uint64 \<rightharpoonup> slice"
  Shards :: "uint64 \<rightharpoonup> ShardInfo"

definition NewShardMapping :: "nat \<Rightarrow> ShardMapping" where
  "NewShardMapping n = \<lparr>sm_n = n, Points = Map.empty, Shards = Map.empty\<rparr>"

text \<open>\<open>ShardMapping.MapPoint\<close>, lines 103-109.\<close>

definition MapPoint :: "ShardMapping \<Rightarrow> ShardInfo \<Rightarrow> Point \<Rightarrow> ShardMapping" where
  "MapPoint s shardInfo p =
     (let b = slice_at (Points s) (ID shardInfo);
          b1 = (if snd b < sm_n s then ([], sm_n s) else b);
          b2 = append1 b1 p
      in s\<lparr>Points := (Points s)(ID shardInfo \<mapsto> b2),
           Shards := (Shards s)(ID shardInfo \<mapsto> shardInfo)\<rparr>)"

text \<open>The points of the bucket of a shard; none when the shard has no bucket.\<close>

definition bucket :: "ShardMapping \<Rightarrow> uint64 \<Rightarrow> Point list" where
  "bucket s k = fst (slice_at (Points s) k)"

section \<open>MapShards\<close>

record RetentionPolicyInfo =
  RP_Name :: string
  Duration :: int

record WritePointsRequest =
  Database :: string
  RetentionPolicy :: string
  WP_Points :: "Point list"

text \<open>
  What \<open>MapShards\<close> takes from outside, over a state \<open>'s\<close> of the meta store:
  \<^item> \<open>MetaClient.RetentionPolicy\<close> and \<open>MetaClient.CreateShardGroup\<close>, each returning the
    pair of the Go function; \<open>CreateShardGroup\<close> may change the store;
  \<^item> \<open>time.Now()\<close>, in nanoseconds;
  \<^item> the constant \<open>models.MinNanoTime\<close>, which is not under src/;
  \<^item> the sorted permutation of \<open>sort.Sort\<close>;
  \<^item> \<open>ShardGroupInfo.ShardFor\<close>, which is not under src/: by the specification it maps a
    hash to exactly one shard of the group. What it does on a group without shards is
    outside this model.
\<close>

record 's World =
  MetaClient_RetentionPolicy ::
    "'s \<Rightarrow> string \<Rightarrow> string \<Rightarrow> RetentionPolicyInfo option \<times> error option"
  MetaClient_CreateShardGroup ::
    "'s \<Rightarrow> string \<Rightarrow> string \<Rightarrow> int \<Rightarrow> (ShardGroupInfo option \<times> error option) \<times> 's"
  time_Now :: int
  MinNanoTime :: int
  sort_Sort :: "sgList \<Rightarrow> sgList"
  ShardFor :: "ShardGroupInfo \<Rightarrow> uint64 \<Rightarrow> ShardInfo"

text \<open>The earliest time in the scope of the retention policy, lines 163-166.\<close>

definition min_time :: "'s World \<Rightarrow> RetentionPolicyInfo \<Rightarrow> int" where
  "min_time W rp = (if Duration rp > 0 then time_Now W - Duration rp else MinNanoTime W)"

text \<open>The first loop, lines 168-186: the shard groups that the batch needs.\<close>

fun createGroups ::
  "'s World \<Rightarrow> WritePointsRequest \<Rightarrow> int \<Rightarrow> 's \<Rightarrow> sgList \<Rightarrow> Point list \<Rightarrow> error + sgList" where
  "createGroups W wp minT s list [] = Inr list"
| "createGroups W wp minT s list (p # ps) =
     (if Time p < minT \<or> Covers list (Time p) then createGroups W wp minT s list ps
      else
        case MetaClient_CreateShardGroup W s (Database wp) (RetentionPolicy wp) (Time p) of
          ((sg, err), s') \<Rightarrow>
            if err \<noteq> None then Inl (the err)
            else if sg = None then Inl (New ''nil shard group'')
            else createGroups W wp minT s' (Append (sort_Sort W) list (the sg)) ps)"

text \<open>The second loop, lines 189-199.\<close>

fun mapPoints :: "'s World \<Rightarrow> sgList \<Rightarrow> ShardMapping \<Rightarrow> Point list \<Rightarrow> ShardMapping" where
  "mapPoints W list mapping [] = mapping"
| "mapPoints W list mapping (p # ps) =
     (case ShardGroupAt list (Time p) of
        None \<Rightarrow> mapPoints W list mapping ps
      | Some sg \<Rightarrow> mapPoints W list (MapPoint mapping (ShardFor W sg (HashID p)) p) ps)"

text \<open>
  \<open>PointsWriter.MapShards\<close>, lines 153-201, with the list of the first loop beside the
  mapping.
\<close>

definition MapShards ::
  "'s World \<Rightarrow> 's \<Rightarrow> WritePointsRequest \<Rightarrow> error + (sgList \<times> ShardMapping)" where
  "MapShards W s wp =
     (case MetaClient_RetentionPolicy W s (Database wp) (RetentionPolicy wp) of
        (rp, err) \<Rightarrow>
          if err \<noteq> None then Inl (the err)
          else if rp = None then Inl (ErrRetentionPolicyNotFound (RetentionPolicy wp))
          else
            (case createGroups W wp (min_time W (the rp)) s [] (WP_Points wp) of
               Inl e \<Rightarrow> Inl e
             | Inr list \<Rightarrow>
                 Inr (list,
                      mapPoints W list (NewShardMapping (length (WP_Points wp))) (WP_Points wp))))"

section \<open>The words of the specification about MapShards\<close>

text \<open>
  The bucket that a point goes to, if any: the shard that \<open>ShardFor\<close> picks in the group
  that \<open>ShardGroupAt\<close> finds for the time of the point.
\<close>

definition bucket_of :: "'s World \<Rightarrow> sgList \<Rightarrow> Point \<Rightarrow> uint64 option" where
  "bucket_of W list p =
     (case ShardGroupAt list (Time p) of
        None \<Rightarrow> None
      | Some sg \<Rightarrow> Some (ID (ShardFor W sg (HashID p))))"

text \<open>Every bucket has at least the capacity \<open>n\<close> of the mapping.\<close>

definition caps_ok :: "ShardMapping \<Rightarrow> bool" where
  "caps_ok m = (\<forall>k b. Points m k = Some b \<longrightarrow> sm_n m \<le> snd b)"

text \<open>\<open>sort.Sort\<close> returns a sorted permutation.\<close>

definition sort_ok :: "'s World \<Rightarrow> bool" where
  "sort_ok W = (\<forall>l. sorted_sgList (sort_Sort W l) \<and> mset (sort_Sort W l) = mset l)"

text \<open>
  The calls of \<open>CreateShardGroup\<close> that the first loop makes and that return a group
  without error, in order: the time asked for and the group returned. The recursion is
  the one of \<open>createGroups\<close>.
\<close>

fun createCalls ::
  "'s World \<Rightarrow> WritePointsRequest \<Rightarrow> int \<Rightarrow> 's \<Rightarrow> sgList \<Rightarrow> Point list
     \<Rightarrow> (int \<times> ShardGroupInfo) list" where
  "createCalls W wp minT s list [] = []"
| "createCalls W wp minT s list (p # ps) =
     (if Time p < minT \<or> Covers list (Time p) then createCalls W wp minT s list ps
      else
        case MetaClient_CreateShardGroup W s (Database wp) (RetentionPolicy wp) (Time p) of
          ((sg, err), s') \<Rightarrow>
            if err \<noteq> None then []
            else if sg = None then []
            else (Time p, the sg)
                   # createCalls W wp minT s' (Append (sort_Sort W) list (the sg)) ps)"

text \<open>
  Every group returned in the run contains the time it was asked for, and no two groups
  returned in the run overlap.
\<close>

definition groups_contain :: "(int \<times> ShardGroupInfo) list \<Rightarrow> bool" where
  "groups_contain calls = list_all (\<lambda>(t, g). contains_time g t) calls"

definition groups_disjoint :: "(int \<times> ShardGroupInfo) list \<Rightarrow> bool" where
  "groups_disjoint calls =
     list_all (\<lambda>(t, g). list_all (\<lambda>(t', g'). compatible g g') calls) calls"

text \<open>The bucket of a shard in the result of \<open>MapShards\<close>.\<close>

definition mapping_bucket :: "error + (sgList \<times> ShardMapping) \<Rightarrow> uint64 \<Rightarrow> Point list option" where
  "mapping_bucket r k = (case r of Inl e \<Rightarrow> None | Inr (l, m) \<Rightarrow> Some (bucket m k))"

section \<open>The cluster service: processWriteShardRequest\<close>

text \<open>
  \<open>rpc.WriteShardRequest\<close>, as far as the handler reads it, through \<open>ShardID()\<close>,
  \<open>Database()\<close>, \<open>RetentionPolicy()\<close> and \<open>Points()\<close>.
\<close>

record WriteShardRequest =
  req_ShardID :: uint64
  req_Database :: string
  req_RetentionPolicy :: string
  req_Points :: "Point list"

text \<open>
  The store of the service, over its state \<open>'s\<close>: each call returns its error and the
  new state. The calls that the handler makes are recorded in order.
\<close>

record 's TSDBStore =
  WriteToShard :: "'s \<Rightarrow> uint64 \<Rightarrow> Point list \<Rightarrow> error option \<times> 's"
  CreateShard :: "'s \<Rightarrow> string \<Rightarrow> string \<Rightarrow> uint64 \<Rightarrow> bool \<Rightarrow> error option \<times> 's"

datatype store_call =
    CallWriteToShard uint64 "Point list"
  | CallCreateShard string string uint64 bool

text \<open>The verb \<open>%d\<close> of \<open>fmt\<close> on an unsigned number: its decimal digits.\<close>

function fmt_d :: "nat \<Rightarrow> string" where
  "fmt_d n = (if n < 10 then [''0123456789'' ! n] else fmt_d (n div 10) @ [''0123456789'' ! (n mod 10)])"
  by pat_completeness auto
termination
  by (relation "measure (\<lambda>n. n)") auto

text \<open>
  \<open>Service.processWriteShardRequest\<close>, lines 595-633. \<open>UnmarshalBinary\<close> of the rpc
  package, which is not under src/, is a parameter: it decodes the buffer or fails.
\<close>

definition processWriteShardRequest ::
  "'s TSDBStore \<Rightarrow> (8 word list \<Rightarrow> error + WriteShardRequest) \<Rightarrow> 's \<Rightarrow> 8 word list
     \<Rightarrow> error option \<times> 's \<times> store_call list" where
  "processWriteShardRequest store UnmarshalBinary s buf =
     (case UnmarshalBinary buf of
        Inl err \<Rightarrow> (Some err, s, [])
      | Inr req \<Rightarrow>
          let points = req_Points req;
              (err, s1) = WriteToShard store s (req_ShardID req) points;
              c1 = [CallWriteToShard (req_ShardID req) points]
          in
            if err = Some ErrShardNotFound then
              let db = req_Database req; rp = req_RetentionPolicy req
              in
                if db = '''' \<or> rp = '''' then (None, s1, c1)
                else
                  let (err2, s2) = CreateShard store s1 (req_Database req)
                                     (req_RetentionPolicy req) (req_ShardID req) True;
                      c2 = c1 @ [CallCreateShard (req_Database req) (req_RetentionPolicy req)
                                   (req_ShardID req) True]
                  in
                    if err2 \<noteq> None then
                      (Some (New (''create shard '' @ fmt_d (unat (req_ShardID req)) @ '': ''
                                  @ Error (the err2))), s2, c2)
                    else
                      let (err3, s3) = WriteToShard store s2 (req_ShardID req) points;
                          c3 = c2 @ [CallWriteToShard (req_ShardID req) points]
                      in
                        if err3 \<noteq> None then
                          (Some (New (''write shard '' @ fmt_d (unat (req_ShardID req)) @ '': ''
                                      @ Error (the err3))), s3, c3)
                        else (None, s3, c3)
            else if err \<noteq> None then
              (Some (New (''write shard '' @ fmt_d (unat (req_ShardID req)) @ '': ''
                          @ Error (the err))), s1, c1)
            else (None, s1, c1))"

subsection \<open>Two stores and a request, for the examples\<close>

text \<open>
  The state is the list of the shards that exist. The first store creates a shard on
  demand; the second one cannot (its disk is full).
\<close>

definition ex_store :: "uint64 list TSDBStore" where
  "ex_store =
     \<lparr>WriteToShard = (\<lambda>s shardID points.
        if shardID \<in> set s then (None, s) else (Some ErrShardNotFound, s)),
      CreateShard = (\<lambda>s db rp shardID enabled. (None, shardID # s))\<rparr>"

definition ex_store_full :: "uint64 list TSDBStore" where
  "ex_store_full =
     \<lparr>WriteToShard = (\<lambda>s shardID points.
        if shardID \<in> set s then (None, s) else (Some ErrShardNotFound, s)),
      CreateShard = (\<lambda>s db rp shardID enabled. (Some (New ''disk full''), s))\<rparr>"

definition ex_req :: WriteShardRequest where
  "ex_req = \<lparr>req_ShardID = 42, req_Database = ''x'', req_RetentionPolicy = ''y'', req_Points = []\<rparr>"

definition ex_Unmarshal :: "8 word list \<Rightarrow> error + WriteShardRequest" where
  "ex_Unmarshal buf = (if buf = [] then Inl (New ''unexpected EOF'') else Inr ex_req)"

section \<open>Open and Close\<close>

text \<open>
  The field \<open>closing\<close> of a \<open>PointsWriter\<close> or of a \<open>Service\<close>: \<open>nil\<close>, a channel that
  is open, or a channel that has been closed. The builtin \<open>close\<close> panics on \<open>nil\<close> and
  on a closed channel.
\<close>

datatype chan = NilChan | OpenChan | ClosedChan

datatype panic = CloseOfNilChannel | CloseOfClosedChannel

fun close :: "chan \<Rightarrow> panic + chan" where
  "close NilChan = Inl CloseOfNilChannel"
| "close OpenChan = Inr ClosedChan"
| "close ClosedChan = Inl CloseOfClosedChannel"

text \<open>
  What a call does besides changing the field, in order: \<open>mu.Lock()\<close>, \<open>mu.Unlock()\<close>,
  \<open>make(chan struct{})\<close>, a call of the builtin \<open>close\<close> on the channel \<open>closing\<close>,
  \<open>Listener.Close()\<close> and \<open>wg.Wait()\<close>.
\<close>

datatype action = Lock | Unlock | MakeChan | CloseChan | ListenerClose | Wait

text \<open>\<open>NewPointsWriter\<close> (line 80) and \<open>NewService\<close> (line 449) make the channel.\<close>

definition NewPointsWriter :: chan where
  "NewPointsWriter = OpenChan"

definition NewService :: chan where
  "NewService = OpenChan"

text \<open>\<open>PointsWriter.Open\<close>, lines 112-117: a new channel, made under the lock.\<close>

definition PointsWriter_Open :: "chan \<Rightarrow> chan \<times> action list" where
  "PointsWriter_Open closing = (OpenChan, [Lock, MakeChan, Unlock])"

text \<open>
  \<open>PointsWriter.Close\<close>, lines 120-127. The deferred \<open>Unlock\<close> also runs when \<open>close\<close>
  panics.
\<close>

definition PointsWriter_Close :: "chan \<Rightarrow> (panic + chan) \<times> action list" where
  "PointsWriter_Close closing =
     (if closing \<noteq> NilChan then (close closing, [Lock, CloseChan, Unlock])
      else (Inr closing, [Lock, Unlock]))"

text \<open>
  \<open>Service.Close\<close>, lines 500-509, for a service with a listener or without one: it
  takes no lock, and \<open>wg.Wait()\<close> is reached only when \<open>close\<close> returns.
\<close>

definition Service_Close :: "bool \<Rightarrow> chan \<Rightarrow> (panic + chan) \<times> action list" where
  "Service_Close listener closing =
     (let l = (if listener then [ListenerClose] else [])
      in case close closing of
           Inl p \<Rightarrow> (Inl p, l @ [CloseChan])
         | Inr closing' \<Rightarrow> (Inr closing', l @ [CloseChan, Wait]))"

text \<open>
  A sequence of calls on a \<open>PointsWriter\<close>, one after the other; it ends at the first
  panic.
\<close>

datatype op = CallOpen | CallClose

fun run :: "op list \<Rightarrow> chan \<Rightarrow> (panic + chan) \<times> action list" where
  "run [] closing = (Inr closing, [])"
| "run (CallOpen # ops) closing =
     (case PointsWriter_Open closing of
        (closing', log) \<Rightarrow> (case run ops closing' of (r, log') \<Rightarrow> (r, log @ log')))"
| "run (CallClose # ops) closing =
     (case PointsWriter_Close closing of
        (Inl p, log) \<Rightarrow> (Inl p, log)
      | (Inr closing', log) \<Rightarrow> (case run ops closing' of (r, log') \<Rightarrow> (r, log @ log')))"

text \<open>\<open>n\<close> calls of \<open>Service.Close\<close>.\<close>

fun Service_Closes :: "nat \<Rightarrow> bool \<Rightarrow> chan \<Rightarrow> (panic + chan) \<times> action list" where
  "Service_Closes 0 listener closing = (Inr closing, [])"
| "Service_Closes (Suc n) listener closing =
     (case Service_Close listener closing of
        (Inl p, log) \<Rightarrow> (Inl p, log)
      | (Inr closing', log) \<Rightarrow>
          (case Service_Closes n listener closing' of (r, log') \<Rightarrow> (r, log @ log')))"

text \<open>No \<open>Close\<close> directly after a \<open>Close\<close>.\<close>

fun no_double_close :: "op list \<Rightarrow> bool" where
  "no_double_close (CallClose # CallClose # ops) = False"
| "no_double_close (x # ops) = no_double_close ops"
| "no_double_close [] = True"

text \<open>
  The words of the specification: the closing is guarded by the write lock. Reading a
  log from a state of the mutex (held or not), \<open>mu_state\<close> is the state at the end, and
  \<open>None\<close> when the log locks a held mutex, unlocks a free one or closes the channel
  while the mutex is free. A log is under the lock when it starts and ends with the mutex
  free and none of this happens.
\<close>

fun mu_state :: "bool \<Rightarrow> action list \<Rightarrow> bool option" where
  "mu_state held [] = Some held"
| "mu_state held (Lock # log) = (if held then None else mu_state True log)"
| "mu_state held (Unlock # log) = (if held then mu_state False log else None)"
| "mu_state held (CloseChan # log) = (if held then mu_state held log else None)"
| "mu_state held (a # log) = mu_state held log"

definition under_lock :: "action list \<Rightarrow> bool" where
  "under_lock log = (mu_state False log = Some False)"

section \<open>Examples\<close>

text \<open>
  A sorted list of three groups that overlap: the first one ends first and starts last.
\<close>

definition ex_sh :: ShardInfo where
  "ex_sh = \<lparr>ID = 1, Owners = [\<lparr>NodeID = 1\<rparr>]\<rparr>"

definition ex_overlap :: sgList where
  "ex_overlap =
     [\<lparr>SG_ID = 1, StartTime = 5, EndTime = 10, SG_Shards = [ex_sh]\<rparr>,
      \<lparr>SG_ID = 2, StartTime = 0, EndTime = 20, SG_Shards = [ex_sh]\<rparr>,
      \<lparr>SG_ID = 3, StartTime = 0, EndTime = 30, SG_Shards = [ex_sh]\<rparr>]"

text \<open>
  A meta store whose shard groups are aligned to 1000 ns, with one shard each; a retention
  policy of 100 ns at the time 1500, so that the scope starts at 1400; and a batch of a
  point at 1400, one at 1399 and one at 500.
\<close>

definition ex_world :: "unit World" where
  "ex_world =
     \<lparr>MetaClient_RetentionPolicy = (\<lambda>s db rp. (Some \<lparr>RP_Name = rp, Duration = 100\<rparr>, None)),
      MetaClient_CreateShardGroup = (\<lambda>s db rp t.
        ((Some \<lparr>SG_ID = word_of_int (t div 1000), StartTime = (t div 1000) * 1000,
                 EndTime = (t div 1000) * 1000 + 1000, SG_Shards = [ex_sh]\<rparr>, None), s)),
      time_Now = 1500,
      MinNanoTime = - 9223372036854775806,
      sort_Sort = sort_key (\<lambda>g. (EndTime g, StartTime g)),
      ShardFor = (\<lambda>sg h. SG_Shards sg ! (unat h mod length (SG_Shards sg)))\<rparr>"

definition ex_p1 :: Point where "ex_p1 = \<lparr>Key = ''cpu'', Time = 1400, HashID = 7\<rparr>"

definition ex_p2 :: Point where "ex_p2 = \<lparr>Key = ''cpu'', Time = 1399, HashID = 7\<rparr>"

definition ex_p3 :: Point where "ex_p3 = \<lparr>Key = ''cpu'', Time = 500, HashID = 7\<rparr>"

definition ex_wp :: WritePointsRequest where
  "ex_wp = \<lparr>Database = ''db'', RetentionPolicy = ''rp'', WP_Points = [ex_p1, ex_p2, ex_p3]\<rparr>"

definition ex_list :: sgList where
  "ex_list = [\<lparr>SG_ID = 1, StartTime = 1000, EndTime = 2000, SG_Shards = [ex_sh]\<rparr>]"

section \<open>The required number of acknowledgements\<close>

lemma required_values:
  "required ConsistencyLevelAny n = 1"
  "required ConsistencyLevelOne n = 1"
  "required ConsistencyLevelQuorum n = n div 2 + 1"
  "required ConsistencyLevelAll n = n"
  by (simp_all add: required_def)

lemma required_pos: "0 < n \<Longrightarrow> 0 < required consistency n"
  by (cases consistency) (simp_all add: required_def)

text \<open>
  Claim C5. The number of acknowledgements that \<open>writeToShard\<close> requires of a shard with
  \<open>N\<close> owners is 1 at ANY and at ONE, \<open>N div 2 + 1\<close> at QUORUM and \<open>N\<close> at ALL: the loop
  is run with exactly this number. One owner at QUORUM requires 1, three owners require 2.
\<close>

theorem required_acks:
  "required ConsistencyLevelAny (length (Owners shard)) = 1
   \<and> required ConsistencyLevelOne (length (Owners shard)) = 1
   \<and> required ConsistencyLevelQuorum (length (Owners shard)) = length (Owners shard) div 2 + 1
   \<and> required ConsistencyLevelAll (length (Owners shard)) = length (Owners shard)
   \<and> returned (writeToShard w shard database retentionPolicy consistency points events)
       = fst (collect (required consistency (length (Owners shard))) (Owners shard) 0 None 0 events)
   \<and> required ConsistencyLevelQuorum 1 = 1
   \<and> required ConsistencyLevelQuorum 3 = 2"
  by (simp add: required_def writeToShard_def split: prod.split)

section \<open>The receive loop\<close>

lemma collect_nil_iff:
  "wrote < req \<Longrightarrow>
   fst (collect req owners wrote writeError rcvd events) = None
     \<longleftrightarrow> req \<le> wrote + length (filter isSuccess (takeWhile isResult (take (length owners) events)))"
proof (induction req owners wrote writeError rcvd events rule: collect.induct)
  case (1 req wrote writeError rcvd events)
  then show ?case by simp
next
  case (2 req owner owners wrote writeError rcvd)
  then show ?case by simp
next
  case (3 req owner owners wrote writeError rcvd events)
  then show ?case by simp
next
  case (4 req owner owners wrote writeError rcvd events)
  then show ?case by simp
next
  case (5 req owner owners wrote writeError rcvd result events)
  then show ?case by (cases "Err result") auto
qed

lemma collect_all_received:
  "wrote < req \<Longrightarrow>
   length (takeWhile isResult (take (length owners) events)) = length owners \<Longrightarrow>
   wrote + length (filter isSuccess (takeWhile isResult (take (length owners) events))) < req \<Longrightarrow>
   collect req owners wrote writeError rcvd events =
     (let wrote' = wrote + length (filter isSuccess (takeWhile isResult (take (length owners) events)));
          writeError' = (if writeError = None
                         then first_error (takeWhile isResult (take (length owners) events))
                         else writeError)
      in (if wrote' > 0 then Some ErrPartialWrite
          else if writeError' \<noteq> None then Some (New (''write failed: '' @ Error (the writeError')))
          else Some ErrWriteFailed, rcvd + length owners))"
proof (induction req owners wrote writeError rcvd events rule: collect.induct)
  case (1 req wrote writeError rcvd events)
  then show ?case by simp
next
  case (2 req owner owners wrote writeError rcvd)
  then show ?case by simp
next
  case (3 req owner owners wrote writeError rcvd events)
  then show ?case by simp
next
  case (4 req owner owners wrote writeError rcvd events)
  then show ?case by simp
next
  case (5 req owner owners wrote writeError rcvd result events)
  then show ?case by (cases "Err result") (auto simp: Let_def)
qed

section \<open>Workers\<close>

text \<open>\<open>Contains\<close> is the substring test.\<close>

lemma Contains_iff: "Contains s substr \<longleftrightarrow> (\<exists>ps ss. s = ps @ substr @ ss)"
proof (induction s)
  case Nil
  then show ?case by auto
next
  case (Cons c cs)
  show ?case
  proof
    assume "Contains (c # cs) substr"
    then consider "prefix substr (c # cs)" | "Contains cs substr" by auto
    then show "\<exists>ps ss. c # cs = ps @ substr @ ss"
    proof cases
      case 1
      then obtain ss where "c # cs = substr @ ss" by (auto simp: prefix_def)
      then have "c # cs = [] @ substr @ ss" by simp
      then show ?thesis by blast
    next
      case 2
      with Cons obtain ps ss where "cs = ps @ substr @ ss" by auto
      then have "c # cs = (c # ps) @ substr @ ss" by simp
      then show ?thesis by blast
    qed
  next
    assume "\<exists>ps ss. c # cs = ps @ substr @ ss"
    then obtain ps ss where eq: "c # cs = ps @ substr @ ss" by auto
    show "Contains (c # cs) substr"
    proof (cases ps)
      case Nil
      with eq have "prefix substr (c # cs)" by (simp add: prefix_def)
      then show ?thesis by simp
    next
      case (Cons p ps')
      with eq have "cs = ps' @ substr @ ss" by simp
      with Cons.IH have "Contains cs substr" by blast
      then show ?thesis by simp
    qed
  qed
qed

lemma spawn_length: "length (spawn w c shard points) = 2 * length (Owners shard)"
  by (simp add: spawn_def length_concat o_def sum_list_triv)

lemma concat_pairs_nth:
  "i < length xs \<Longrightarrow>
   concat (map (\<lambda>x. [f x, g x]) xs) ! (2 * i) = f (xs ! i)
   \<and> concat (map (\<lambda>x. [f x, g x]) xs) ! (2 * i + 1) = g (xs ! i)"
proof (induction xs arbitrary: i)
  case Nil
  then show ?case by simp
next
  case (Cons x xs)
  then show ?case by (cases i) auto
qed

lemma spawn_nth:
  assumes "i < length (Owners shard)"
  shows "spawn w c shard points ! (2 * i) = localAttempt w (ID shard) (Owners shard ! i) points"
    and "spawn w c shard points ! (2 * i + 1) = remoteAttempt w c (ID shard) (Owners shard ! i) points"
  using concat_pairs_nth [OF assms, of "\<lambda>owner. localAttempt w (ID shard) owner points"
      "\<lambda>owner. remoteAttempt w c (ID shard) owner points"]
  by (simp_all add: spawn_def)

lemma workers_writeToShard:
  "workers (writeToShard w shard db rp c points events) = spawn w c shard points"
  by (simp add: writeToShard_def split: prod.split)

lemma returned_writeToShard:
  "returned (writeToShard w shard db rp c points events) =
     fst (collect (required c (length (Owners shard))) (Owners shard) 0 None 0 events)"
  by (simp add: writeToShard_def split: prod.split)

lemma received_writeToShard:
  "received (writeToShard w shard db rp c points events) =
     snd (collect (required c (length (Owners shard))) (Owners shard) 0 None 0 events)"
  by (simp add: writeToShard_def split: prod.split)

text \<open>
  Claim C1. For a shard with at least one owner and any consistency level, \<open>writeToShard\<close>
  returns \<open>nil\<close> exactly when the results without error that are received before a timeout
  or the shutdown reach the required number. When all \<open>len(owners)\<close> results are received
  without reaching it, the call returns \<open>ErrPartialWrite\<close> if a success was counted, the
  first error wrapped as \<open>write failed: <err>\<close> if an error was seen and no success, and
  \<open>ErrWriteFailed\<close> otherwise.
\<close>

theorem writeToShard_result:
  assumes "Owners shard \<noteq> []"
  shows "(returned (writeToShard w shard db rp c points events) = None
            \<longleftrightarrow> required c (length (Owners shard)) \<le> owner_successes (length (Owners shard)) events)
       \<and> (length (results_before_stop (length (Owners shard)) events) = length (Owners shard)
            \<and> owner_successes (length (Owners shard)) events < required c (length (Owners shard))
          \<longrightarrow> returned (writeToShard w shard db rp c points events) =
                (if 0 < owner_successes (length (Owners shard)) events then Some ErrPartialWrite
                 else if first_error (results_before_stop (length (Owners shard)) events) \<noteq> None
                   then Some (New (''write failed: '' @
                          Error (the (first_error (results_before_stop (length (Owners shard)) events)))))
                 else Some ErrWriteFailed))"
proof -
  let ?n = "length (Owners shard)"
  from assms have pos: "0 < required c ?n"
    by (simp add: required_pos)
  have a: "returned (writeToShard w shard db rp c points events) = None
            \<longleftrightarrow> required c ?n \<le> owner_successes ?n events"
    using collect_nil_iff [OF pos, of "Owners shard" None 0 events]
    by (simp add: returned_writeToShard owner_successes_def results_before_stop_def)
  have b: "returned (writeToShard w shard db rp c points events) =
                (if 0 < owner_successes ?n events then Some ErrPartialWrite
                 else if first_error (results_before_stop ?n events) \<noteq> None
                   then Some (New (''write failed: '' @
                          Error (the (first_error (results_before_stop ?n events)))))
                 else Some ErrWriteFailed)"
    if "length (results_before_stop ?n events) = ?n"
      and "owner_successes ?n events < required c ?n"
    using collect_all_received [OF pos, of "Owners shard" events None 0] that
    by (simp add: returned_writeToShard owner_successes_def results_before_stop_def Let_def)
  from a b show ?thesis by blast
qed

text \<open>
  Claim C2. For an owner that is not the local node, when \<open>ShardWriter.WriteShard\<close> fails
  with a retryable error, the remote attempt sends exactly one result: the error of
  \<open>HintedHandoff.WriteShard\<close> if the handoff fails; otherwise \<open>nil\<close> at ANY and the
  original remote error at ONE, QUORUM and ALL. So after a successful handoff the result is
  \<open>nil\<close> if and only if the level is ANY.
\<close>

theorem remote_handoff_result:
  assumes "i < length (Owners shard)"
    and "Node_ID w \<noteq> NodeID (Owners shard ! i)"
    and "ShardWriter_WriteShard w (ID shard) (NodeID (Owners shard ! i)) points = Some e"
    and "isRetryable (Some e)"
  shows "fst (workers (writeToShard w shard db rp c points events) ! (2 * i + 1)) =
           [\<lparr>Owner = Owners shard ! i,
             Err = (case HintedHandoff_WriteShard w (ID shard) (NodeID (Owners shard ! i)) points of
                      Some hherr \<Rightarrow> Some hherr
                    | None \<Rightarrow> if c = ConsistencyLevelAny then None else Some e)\<rparr>]
         \<and> (HintedHandoff_WriteShard w (ID shard) (NodeID (Owners shard ! i)) points = None \<longrightarrow>
              (Err (hd (fst (workers (writeToShard w shard db rp c points events) ! (2 * i + 1)))) = None
                 \<longleftrightarrow> c = ConsistencyLevelAny))"
proof -
  have wk: "workers (writeToShard w shard db rp c points events) ! (2 * i + 1) =
              remoteAttempt w c (ID shard) (Owners shard ! i) points"
    using spawn_nth(2) [OF assms(1)] by (simp only: workers_writeToShard)
  show ?thesis
    unfolding wk using assms(2-)
    by (auto simp: remoteAttempt_def Let_def split: option.splits)
qed

text \<open>
  Three owners, all three results received, one success: a partial write at QUORUM, a
  success at ONE.
\<close>

theorem writeToShard_result_witness:
  "Owners ex_shard \<noteq> []
   \<and> length (results_before_stop (length (Owners ex_shard)) ex_events) = length (Owners ex_shard)
   \<and> owner_successes (length (Owners ex_shard)) ex_events
        < required ConsistencyLevelQuorum (length (Owners ex_shard))
   \<and> returned (writeToShard ex_writer ex_shard ''db'' ''rp'' ConsistencyLevelQuorum [] ex_events)
        = Some ErrPartialWrite
   \<and> returned (writeToShard ex_writer ex_shard ''db'' ''rp'' ConsistencyLevelOne [] ex_events)
        = None"
  using writeToShard_result [of ex_shard ex_writer "''db''" "''rp''" ConsistencyLevelQuorum "[]" ex_events]
    writeToShard_result [of ex_shard ex_writer "''db''" "''rp''" ConsistencyLevelOne "[]" ex_events]
  by (simp add: ex_shard_def ex_events_def results_before_stop_def owner_successes_def required_def)

text \<open>Node 2 of the example: the handoff counts at ANY and not at QUORUM.\<close>

theorem remote_handoff_result_witness:
  "1 < length (Owners ex_shard)
   \<and> Node_ID ex_writer \<noteq> NodeID (Owners ex_shard ! 1)
   \<and> ShardWriter_WriteShard ex_writer (ID ex_shard) (NodeID (Owners ex_shard ! 1)) [] =
        Some (New ''connection refused'')
   \<and> isRetryable (Some (New ''connection refused''))
   \<and> fst (workers (writeToShard ex_writer ex_shard ''db'' ''rp'' ConsistencyLevelAny [] ex_events) ! (2 * 1 + 1))
        = [\<lparr>Owner = \<lparr>NodeID = 2\<rparr>, Err = None\<rparr>]
   \<and> fst (workers (writeToShard ex_writer ex_shard ''db'' ''rp'' ConsistencyLevelQuorum [] ex_events) ! (2 * 1 + 1))
        = [\<lparr>Owner = \<lparr>NodeID = 2\<rparr>, Err = Some (New ''connection refused'')\<rparr>]"
  using remote_handoff_result [of 1 ex_shard ex_writer "[]" "New ''connection refused''" "''db''" "''rp''"
      ConsistencyLevelAny ex_events]
    remote_handoff_result [of 1 ex_shard ex_writer "[]" "New ''connection refused''" "''db''" "''rp''"
      ConsistencyLevelQuorum ex_events]
  by (simp add: ex_shard_def ex_writer_def isRetryable_def)

text \<open>
  Claim C6. \<open>isRetryable\<close> is true of \<open>nil\<close>, false of every error whose text contains
  \<open>field type conflict\<close> and true of every other error. Of the two goroutines of an owner,
  the local attempt never calls \<open>HintedHandoff.WriteShard\<close>, and the remote attempt calls
  it exactly when the owner is remote and the remote write fails with an error that
  \<open>isRetryable\<close> accepts; so a remote error containing \<open>field type conflict\<close> causes no
  handoff call.
\<close>

theorem handoff_only_if_retryable:
  "isRetryable None
   \<and> (Contains (Error e) ''field type conflict'' \<longrightarrow> \<not> isRetryable (Some e))
   \<and> (\<not> Contains (Error e) ''field type conflict'' \<longrightarrow> isRetryable (Some e))
   \<and> (i < length (Owners shard) \<longrightarrow>
        \<not> list_ex isHandoff (snd (workers (writeToShard w shard db rp c points events) ! (2 * i)))
        \<and> (list_ex isHandoff (snd (workers (writeToShard w shard db rp c points events) ! (2 * i + 1)))
             \<longleftrightarrow> Node_ID w \<noteq> NodeID (Owners shard ! i)
                  \<and> ShardWriter_WriteShard w (ID shard) (NodeID (Owners shard ! i)) points \<noteq> None
                  \<and> isRetryable (ShardWriter_WriteShard w (ID shard) (NodeID (Owners shard ! i)) points)))
   \<and> (i < length (Owners shard)
        \<and> ShardWriter_WriteShard w (ID shard) (NodeID (Owners shard ! i)) points = Some e
        \<and> Contains (Error e) ''field type conflict'' \<longrightarrow>
          \<not> list_ex isHandoff (snd (workers (writeToShard w shard db rp c points events) ! (2 * i)))
          \<and> \<not> list_ex isHandoff (snd (workers (writeToShard w shard db rp c points events) ! (2 * i + 1))))"
proof -
  have r: "isRetryable None" "Contains (Error e) ''field type conflict'' \<Longrightarrow> \<not> isRetryable (Some e)"
    "\<not> Contains (Error e) ''field type conflict'' \<Longrightarrow> isRetryable (Some e)"
    by (simp_all add: isRetryable_def)
  have l: "\<not> list_ex isHandoff (snd (workers (writeToShard w shard db rp c points events) ! (2 * i)))"
    if "i < length (Owners shard)"
    using spawn_nth(1) [OF that, of w c points]
    by (simp add: workers_writeToShard localAttempt_def Let_def)
  have wk: "workers (writeToShard w shard db rp c points events) ! (2 * i + 1) =
              remoteAttempt w c (ID shard) (Owners shard ! i) points"
    if "i < length (Owners shard)"
    using spawn_nth(2) [OF that] by (simp only: workers_writeToShard)
  have h: "list_ex isHandoff (snd (remoteAttempt w c (ID shard) (Owners shard ! i) points))
             \<longleftrightarrow> Node_ID w \<noteq> NodeID (Owners shard ! i)
                  \<and> ShardWriter_WriteShard w (ID shard) (NodeID (Owners shard ! i)) points \<noteq> None
                  \<and> isRetryable (ShardWriter_WriteShard w (ID shard) (NodeID (Owners shard ! i)) points)"
    by (auto simp: remoteAttempt_def Let_def)
  from r l wk h show ?thesis by auto
qed

text \<open>Node 3 of the example reports a field type conflict: no handoff.\<close>

theorem handoff_only_if_retryable_witness:
  "2 < length (Owners ex_shard)
   \<and> ShardWriter_WriteShard ex_writer (ID ex_shard) (NodeID (Owners ex_shard ! 2)) [] =
        Some (New ''input field type conflict'')
   \<and> Contains (Error (New ''input field type conflict'')) ''field type conflict''
   \<and> \<not> isRetryable (Some (New ''input field type conflict''))
   \<and> \<not> list_ex isHandoff
         (snd (workers (writeToShard ex_writer ex_shard ''db'' ''rp'' ConsistencyLevelAny [] ex_events) ! (2 * 2 + 1)))"
  using handoff_only_if_retryable [of "New ''input field type conflict''" 2 ex_shard ex_writer
      "''db''" "''rp''" ConsistencyLevelAny "[]" ex_events]
  by (simp add: ex_shard_def ex_writer_def)

text \<open>
  Claim C10. For a shard without owners, \<open>writeToShard\<close> starts no goroutine, receives no
  result and returns \<open>ErrWriteFailed\<close> at every consistency level and whatever the
  environment offers; at ALL the required number is 0, and the success return is still not
  reached.
\<close>

theorem no_owners_write_failed:
  assumes "Owners shard = []"
  shows "writeToShard w shard db rp c points events =
           \<lparr>returned = Some ErrWriteFailed, received = 0, workers = []\<rparr>
         \<and> required ConsistencyLevelAll (length (Owners shard)) = 0"
  using assms by (simp add: writeToShard_def spawn_def required_def)

text \<open>A shard without owners at ALL, with a result on offer that is never received.\<close>

theorem no_owners_write_failed_witness:
  "Owners \<lparr>ID = 7, Owners = []\<rparr> = []
   \<and> writeToShard ex_writer \<lparr>ID = 7, Owners = []\<rparr> ''db'' ''rp'' ConsistencyLevelAll []
        [Result \<lparr>Owner = \<lparr>NodeID = 1\<rparr>, Err = None\<rparr>]
       = \<lparr>returned = Some ErrWriteFailed, received = 0, workers = []\<rparr>"
  using no_owners_write_failed [of "\<lparr>ID = 7, Owners = []\<rparr>" ex_writer "''db''" "''rp''"
      ConsistencyLevelAll "[]" "[Result \<lparr>Owner = \<lparr>NodeID = 1\<rparr>, Err = None\<rparr>]"]
  by simp

section \<open>Binary search\<close>

lemma Search_loop_bounds: "i \<le> j \<Longrightarrow> i \<le> Search_loop f i j \<and> Search_loop f i j \<le> j"
proof (induction f i j rule: Search_loop.induct)
  case (1 f i j)
  show ?case
  proof (cases "i < j")
    case True
    let ?h = "(i + j) div 2"
    from True have h: "i \<le> ?h" "?h < j" by auto
    show ?thesis
    proof (cases "f ?h")
      case True
      with 1(2)[OF \<open>i < j\<close> refl] h \<open>i < j\<close> show ?thesis by (simp add: Let_def)
    next
      case False
      with 1(1)[OF \<open>i < j\<close> refl] h \<open>i < j\<close> show ?thesis by (simp add: Let_def)
    qed
  next
    case False
    with 1(3) show ?thesis by simp
  qed
qed

lemma Search_loop_true:
  "i \<le> j \<Longrightarrow> Search_loop f i j < j \<Longrightarrow> f (Search_loop f i j)"
proof (induction f i j rule: Search_loop.induct)
  case (1 f i j)
  from 1(4) have lt: "i < j"
    by (cases "i < j") auto
  let ?h = "(i + j) div 2"
  from lt have h: "i \<le> ?h" "?h < j" by auto
  show ?case
  proof (cases "f ?h")
    case True
    then have eq: "Search_loop f i j = Search_loop f i ?h"
      using lt by (simp add: Let_def)
    from Search_loop_bounds [OF h(1), of f] have "Search_loop f i ?h \<le> ?h" by simp
    then consider "Search_loop f i ?h < ?h" | "Search_loop f i ?h = ?h" by linarith
    then show ?thesis
    proof cases
      case 1
      with "1.IH"(2) [OF lt refl] True h show ?thesis unfolding eq by simp
    next
      case 2
      with True show ?thesis unfolding eq by simp
    qed
  next
    case False
    then have eq: "Search_loop f i j = Search_loop f (?h + 1) j"
      using lt by (simp add: Let_def)
    with "1.IH"(1) [OF lt refl False] h 1(4) show ?thesis by simp
  qed
qed

lemma Search_loop_false:
  "i \<le> j \<Longrightarrow> i < Search_loop f i j \<Longrightarrow> \<not> f (Search_loop f i j - 1)"
proof (induction f i j rule: Search_loop.induct)
  case (1 f i j)
  from 1(4) have lt: "i < j"
    by (cases "i < j") auto
  let ?h = "(i + j) div 2"
  from lt have h: "i \<le> ?h" "?h < j" by auto
  show ?case
  proof (cases "f ?h")
    case True
    then have eq: "Search_loop f i j = Search_loop f i ?h"
      using lt by (simp add: Let_def)
    with "1.IH"(2) [OF lt refl] True h 1(4) show ?thesis by simp
  next
    case False
    then have eq: "Search_loop f i j = Search_loop f (?h + 1) j"
      using lt by (simp add: Let_def)
    from Search_loop_bounds [of "?h + 1" j f] h
    have "?h + 1 \<le> Search_loop f (?h + 1) j" by simp
    then consider "?h + 1 < Search_loop f (?h + 1) j" | "Search_loop f (?h + 1) j = ?h + 1"
      by linarith
    then show ?thesis
    proof cases
      case 1
      with "1.IH"(1) [OF lt refl False] h show ?thesis unfolding eq by simp
    next
      case 2
      with False show ?thesis unfolding eq by simp
    qed
  qed
qed

lemma Search_le: "Search n f \<le> n"
  unfolding Search_def using Search_loop_bounds [of 0 n f] by blast

lemma Search_true: "Search n f < n \<Longrightarrow> f (Search n f)"
  unfolding Search_def using Search_loop_true [of 0 n f] by blast

lemma Search_false: "0 < Search n f \<Longrightarrow> \<not> f (Search n f - 1)"
  unfolding Search_def using Search_loop_false [of 0 n f] by blast

text \<open>For a predicate that is false and then true, the result is the least index.\<close>

lemma Search_least:
  assumes mono: "\<And>a b. a \<le> b \<Longrightarrow> b < n \<Longrightarrow> f a \<Longrightarrow> f b"
    and k: "k < Search n f"
  shows "\<not> f k"
proof
  assume fk: "f k"
  from k have pos: "0 < Search n f" by simp
  from Search_le [of n f] pos have "Search n f - 1 < n" by simp
  moreover from k have "k \<le> Search n f - 1" by simp
  ultimately have "f (Search n f - 1)" using mono fk by blast
  with Search_false [OF pos] show False by simp
qed

section \<open>ShardGroupAt and Covers\<close>

text \<open>
  On any list, a group that \<open>ShardGroupAt\<close> returns is in the list and contains the time.
  On a sorted list, no group that ends after the time ends before it. On a sorted list of
  groups that do not overlap, a time that some group contains is found.
\<close>

lemma sorted_EndTime:
  assumes "sorted_sgList l" and "a \<le> b" and "b < length l"
  shows "EndTime (l ! a) \<le> EndTime (l ! b)"
proof (cases "a = b")
  case True
  then show ?thesis by simp
next
  case False
  with assms have "a < b" by simp
  with assms have "\<not> Less (l ! b) (l ! a)"
    by (simp add: sorted_sgList_def sorted_wrt_iff_nth_less)
  then show ?thesis
    by (auto simp: Less_def split: if_splits)
qed

lemma ShardGroupAt_Some:
  assumes "ShardGroupAt l t = Some g"
  shows "g \<in> set l \<and> contains_time g t"
proof -
  let ?f = "\<lambda>i. EndTime (l ! i) > t"
  let ?idx = "Search (length l) ?f"
  from assms have ne: "?idx \<noteq> length l" and st: "\<not> t < StartTime (l ! ?idx)" and g: "g = l ! ?idx"
    by (auto simp: ShardGroupAt_def Let_def split: if_splits)
  from ne Search_le [of "length l" ?f] have lt: "?idx < length l" by simp
  from Search_true [OF lt] have "t < EndTime (l ! ?idx)" .
  with st lt g show ?thesis by (simp add: contains_time_def)
qed

lemma ShardGroupAt_earliest:
  assumes "ShardGroupAt l t = Some g" and "sorted_sgList l" and "g' \<in> set l" and "t < EndTime g'"
  shows "EndTime g \<le> EndTime g'"
proof -
  let ?f = "\<lambda>i. EndTime (l ! i) > t"
  let ?idx = "Search (length l) ?f"
  from assms(1) have g: "g = l ! ?idx"
    by (auto simp: ShardGroupAt_def Let_def split: if_splits)
  from assms(3) obtain k where k: "k < length l" "g' = l ! k"
    by (auto simp: in_set_conv_nth)
  have "?idx \<le> k"
  proof (rule ccontr)
    assume "\<not> ?idx \<le> k"
    then have "k < ?idx" by simp
    then have "\<not> ?f k"
    proof (rule Search_least [rotated])
      fix a b assume "a \<le> b" "b < length l" "?f a"
      with sorted_EndTime [OF assms(2), of a b] show "?f b" by simp
    qed
    with k assms(4) show False by simp
  qed
  with sorted_EndTime [OF assms(2) _ k(1)] g k show ?thesis by simp
qed

lemma ShardGroupAt_complete:
  assumes sorted: "sorted_sgList l"
    and nonempty: "\<And>x. x \<in> set l \<Longrightarrow> StartTime x < EndTime x"
    and compat: "\<And>x y. x \<in> set l \<Longrightarrow> y \<in> set l \<Longrightarrow> compatible x y"
    and g: "g \<in> set l" and c: "contains_time g t"
  shows "ShardGroupAt l t \<noteq> None"
proof -
  let ?f = "\<lambda>i. EndTime (l ! i) > t"
  let ?idx = "Search (length l) ?f"
  from g obtain k where k: "k < length l" "g = l ! k"
    by (auto simp: in_set_conv_nth)
  have le: "?idx \<le> k"
  proof (rule ccontr)
    assume "\<not> ?idx \<le> k"
    then have "k < ?idx" by simp
    then have "\<not> ?f k"
    proof (rule Search_least [rotated])
      fix a b assume "a \<le> b" "b < length l" "?f a"
      with sorted_EndTime [OF sorted, of a b] show "?f b" by simp
    qed
    with k c show False by (simp add: contains_time_def)
  qed
  with k have lt: "?idx < length l" by simp
  then have mem: "l ! ?idx \<in> set l" by simp
  from Search_true [OF lt] have e: "t < EndTime (l ! ?idx)" .
  from sorted_EndTime [OF sorted le k(1)] k have ee: "EndTime (l ! ?idx) \<le> EndTime g" by simp
  have "StartTime (l ! ?idx) \<le> t"
  proof (rule ccontr)
    assume "\<not> StartTime (l ! ?idx) \<le> t"
    then have s: "t < StartTime (l ! ?idx)" by simp
    from compat [OF mem g] nonempty [OF mem] s e ee c show False
      by (auto simp: compatible_def contains_time_def)
  qed
  with lt show ?thesis
    by (simp add: ShardGroupAt_def Let_def)
qed

lemma ex_overlap_sorted: "sorted_sgList ex_overlap"
  by (simp add: ex_overlap_def sorted_sgList_def Less_def)

lemma ex_overlap_At: "ShardGroupAt ex_overlap 3 = None"
  by (simp add: ex_overlap_def ShardGroupAt_def Search_def Let_def)

lemma ex_overlap_Covers: "Covers ex_overlap 3 = False"
  by (simp add: Covers_def ex_overlap_At)

text \<open>
  Claim C3. The claim is that on a list sorted by end time and then start time
  \<open>ShardGroupAt\<close> returns the group with the earliest end time among the groups that
  contain the time. The source does not: on the sorted list of the groups \<open>[5, 10)\<close>,
  \<open>[0, 20)\<close> and \<open>[0, 30)\<close> the binary search stops at the first group, which ends after
  the time 3 and starts after it, and \<open>ShardGroupAt\<close> returns \<open>nil\<close>, although the second
  and the third group contain the time 3.
\<close>

theorem ShardGroupAt_misses_overlapping_group:
  "sorted_sgList ex_overlap
   \<and> ex_overlap ! 1 \<in> set ex_overlap \<and> contains_time (ex_overlap ! 1) 3
   \<and> ex_overlap ! 2 \<in> set ex_overlap \<and> contains_time (ex_overlap ! 2) 3
   \<and> ShardGroupAt ex_overlap 3 = None"
  by (simp add: ex_overlap_sorted ex_overlap_At) (simp add: ex_overlap_def contains_time_def)

text \<open>
  Claim C4. The claim is that on a sorted list \<open>Covers\<close> is true exactly when some group
  contains the time, also when groups overlap. On the same list \<open>Covers\<close> is false at the
  time 3, which the group \<open>[0, 20)\<close> contains.
\<close>

theorem Covers_misses_overlapping_group:
  "sorted_sgList ex_overlap
   \<and> ex_overlap ! 1 \<in> set ex_overlap \<and> contains_time (ex_overlap ! 1) 3
   \<and> \<not> Covers ex_overlap 3"
  by (simp add: ex_overlap_sorted ex_overlap_Covers) (simp add: ex_overlap_def contains_time_def)

section \<open>The shard mapping\<close>

lemma append1_fst: "fst (append1 b p) = fst b @ [p]"
  by (simp add: append1_def)

lemma append1_snd: "snd b \<le> snd (append1 b p)"
  by (auto simp: append1_def max_def)

lemma MapPoint_n: "sm_n (MapPoint m sh p) = sm_n m"
  by (simp add: MapPoint_def Let_def)

lemma MapPoint_caps:
  assumes "caps_ok m"
  shows "caps_ok (MapPoint m sh p)"
proof -
  let ?b = "slice_at (Points m) (ID sh)"
  let ?b1 = "if snd ?b < sm_n m then ([], sm_n m) else ?b"
  have "sm_n m \<le> snd ?b1" by simp
  also have "\<dots> \<le> snd (append1 ?b1 p)" by (rule append1_snd)
  finally have "sm_n m \<le> snd (append1 ?b1 p)" .
  with assms show ?thesis
    by (auto simp: caps_ok_def MapPoint_def Let_def)
qed

lemma slice_at_upd: "slice_at (m(k \<mapsto> b)) k' = (if k' = k then b else slice_at m k')"
  by (simp add: slice_at_def)

lemma MapPoint_Points:
  "Points (MapPoint m sh p) =
     (Points m)(ID sh \<mapsto>
        append1 (if snd (slice_at (Points m) (ID sh)) < sm_n m then ([], sm_n m)
                 else slice_at (Points m) (ID sh)) p)"
  by (simp add: MapPoint_def Let_def)

lemma MapPoint_bucket:
  assumes "caps_ok m"
  shows "bucket (MapPoint m sh p) k = bucket m k @ (if k = ID sh then [p] else [])"
proof (cases "k = ID sh")
  case False
  then show ?thesis
    by (simp add: bucket_def MapPoint_Points slice_at_upd)
next
  case True
  let ?b = "slice_at (Points m) (ID sh)"
  let ?b1 = "if snd ?b < sm_n m then ([], sm_n m) else ?b"
  have "fst ?b1 = fst ?b"
  proof (cases "Points m (ID sh)")
    case None
    then show ?thesis by (simp add: slice_at_def)
  next
    case (Some b)
    with assms have "sm_n m \<le> snd b" by (cases b) (auto simp: caps_ok_def)
    with Some show ?thesis by (simp add: slice_at_def)
  qed
  then have "fst (append1 ?b1 p) = fst ?b @ [p]"
    by (simp only: append1_fst)
  moreover have "bucket (MapPoint m sh p) k = fst (append1 ?b1 p)"
    using True by (simp only: bucket_def MapPoint_Points slice_at_upd refl if_True)
  moreover have "bucket m k = fst ?b"
    using True by (simp only: bucket_def)
  ultimately show ?thesis using True by simp
qed

lemma mapPoints_bucket:
  "caps_ok m \<Longrightarrow>
   bucket (mapPoints W l m ps) k = bucket m k @ filter (\<lambda>p. bucket_of W l p = Some k) ps"
proof (induction ps arbitrary: m)
  case Nil
  then show ?case by simp
next
  case (Cons p ps)
  show ?case
  proof (cases "ShardGroupAt l (Time p)")
    case None
    with Cons show ?thesis by (simp add: bucket_of_def)
  next
    case (Some sg)
    let ?m = "MapPoint m (ShardFor W sg (HashID p)) p"
    from Cons.prems have "caps_ok ?m" by (rule MapPoint_caps)
    from Cons.IH [OF this] Some MapPoint_bucket [OF Cons.prems, of "ShardFor W sg (HashID p)" p k]
    show ?thesis by (auto simp: bucket_of_def)
  qed
qed

lemma caps_ok_New: "caps_ok (NewShardMapping n)"
  by (simp add: caps_ok_def NewShardMapping_def)

lemma bucket_New: "bucket (NewShardMapping n) k = []"
  by (simp add: bucket_def NewShardMapping_def slice_at_def)

section \<open>The first loop of MapShards\<close>

lemma set_Append: "sort_ok W \<Longrightarrow> set (Append (sort_Sort W) l g) = insert g (set l)"
proof -
  assume "sort_ok W"
  then have "mset (sort_Sort W (l @ [g])) = mset (l @ [g])"
    by (simp add: sort_ok_def)
  then have "set (sort_Sort W (l @ [g])) = set (l @ [g])"
    by (rule mset_eq_setD)
  then show ?thesis by (simp add: Append_def)
qed

lemma sorted_Append: "sort_ok W \<Longrightarrow> sorted_sgList (Append (sort_Sort W) l g)"
  by (simp add: sort_ok_def Append_def)

lemma Covers_contains:
  assumes "Covers l t"
  shows "\<exists>g\<in>set l. contains_time g t"
proof -
  from assms obtain g where "ShardGroupAt l t = Some g"
    by (auto simp: Covers_def split: if_splits)
  from ShardGroupAt_Some [OF this] show ?thesis by blast
qed

lemma createGroups_step:
  assumes "\<not> (Time p < minT \<or> Covers list (Time p))"
    and "createGroups W wp minT s list (p # ps) = Inr list'"
  obtains sg s' where
    "MetaClient_CreateShardGroup W s (Database wp) (RetentionPolicy wp) (Time p) = ((Some sg, None), s')"
    and "createGroups W wp minT s' (Append (sort_Sort W) list sg) ps = Inr list'"
proof -
  obtain sg err s' where
    c: "MetaClient_CreateShardGroup W s (Database wp) (RetentionPolicy wp) (Time p) = ((sg, err), s')"
    by (metis prod.exhaust)
  from assms c have "err = None" "sg \<noteq> None"
    by (auto split: if_splits)
  then obtain g where "sg = Some g" by auto
  with assms c \<open>err = None\<close> that [of g s'] show ?thesis by auto
qed

lemma createCalls_step:
  assumes "\<not> (Time p < minT \<or> Covers list (Time p))"
    and "MetaClient_CreateShardGroup W s (Database wp) (RetentionPolicy wp) (Time p) = ((Some sg, None), s')"
  shows "createCalls W wp minT s list (p # ps) =
           (Time p, sg) # createCalls W wp minT s' (Append (sort_Sort W) list sg) ps"
  using assms by simp

text \<open>Each call is made for a point of the batch at or after the start of the scope.\<close>

lemma createCalls_times:
  "createGroups W wp minT s list ps = Inr list' \<Longrightarrow>
   (t, g) \<in> set (createCalls W wp minT s list ps) \<Longrightarrow>
   \<exists>p\<in>set ps. minT \<le> Time p \<and> Time p = t"
proof (induction ps arbitrary: s list)
  case Nil
  then show ?case by simp
next
  case (Cons p ps)
  show ?case
  proof (cases "Time p < minT \<or> Covers list (Time p)")
    case True
    with Cons.prems have "createGroups W wp minT s list ps = Inr list'"
      "(t, g) \<in> set (createCalls W wp minT s list ps)" by simp_all
    from Cons.IH [OF this] show ?thesis by auto
  next
    case False
    from createGroups_step [OF False Cons.prems(1)] obtain sg s' where
      c: "MetaClient_CreateShardGroup W s (Database wp) (RetentionPolicy wp) (Time p) = ((Some sg, None), s')"
      and r: "createGroups W wp minT s' (Append (sort_Sort W) list sg) ps = Inr list'"
      by blast
    from Cons.prems(2) have
      "(t, g) = (Time p, sg) \<or> (t, g) \<in> set (createCalls W wp minT s' (Append (sort_Sort W) list sg) ps)"
      unfolding createCalls_step [OF False c] by simp
    then show ?thesis
    proof
      assume "(t, g) = (Time p, sg)"
      with False show ?thesis by auto
    next
      assume "(t, g) \<in> set (createCalls W wp minT s' (Append (sort_Sort W) list sg) ps)"
      from Cons.IH [OF r this] show ?thesis by auto
    qed
  qed
qed

text \<open>The list that the loop returns holds the groups it started with and the groups returned.\<close>

lemma createGroups_groups:
  assumes "sort_ok W"
  shows "createGroups W wp minT s list ps = Inr list' \<Longrightarrow>
         set list' = set list \<union> snd ` set (createCalls W wp minT s list ps)"
proof (induction ps arbitrary: s list)
  case Nil
  then show ?case by simp
next
  case (Cons p ps)
  show ?case
  proof (cases "Time p < minT \<or> Covers list (Time p)")
    case True
    with Cons.prems have "createGroups W wp minT s list ps = Inr list'" by simp
    from Cons.IH [OF this] True show ?thesis by simp
  next
    case False
    from createGroups_step [OF False Cons.prems] obtain sg s' where
      c: "MetaClient_CreateShardGroup W s (Database wp) (RetentionPolicy wp) (Time p) = ((Some sg, None), s')"
      and r: "createGroups W wp minT s' (Append (sort_Sort W) list sg) ps = Inr list'"
      by blast
    from Cons.IH [OF r] show ?thesis
      unfolding createCalls_step [OF False c] by (simp add: set_Append [OF assms])
  qed
qed

lemma createGroups_cover:
  assumes "sort_ok W"
  shows "createGroups W wp minT s list ps = Inr list' \<Longrightarrow>
         groups_contain (createCalls W wp minT s list ps) \<Longrightarrow>
         \<forall>p\<in>set ps. minT \<le> Time p \<longrightarrow> (\<exists>g\<in>set list'. contains_time g (Time p))"
proof (induction ps arbitrary: s list)
  case Nil
  then show ?case by simp
next
  case (Cons p ps)
  show ?case
  proof (cases "Time p < minT \<or> Covers list (Time p)")
    case True
    with Cons.prems have r: "createGroups W wp minT s list ps = Inr list'"
      and gc: "groups_contain (createCalls W wp minT s list ps)" by simp_all
    have "\<exists>g\<in>set list'. contains_time g (Time p)" if "minT \<le> Time p"
    proof -
      from that True have "Covers list (Time p)" by simp
      from Covers_contains [OF this] createGroups_groups [OF assms r]
      show ?thesis by blast
    qed
    with Cons.IH [OF r gc] show ?thesis by simp
  next
    case False
    from createGroups_step [OF False Cons.prems(1)] obtain sg s' where
      c: "MetaClient_CreateShardGroup W s (Database wp) (RetentionPolicy wp) (Time p) = ((Some sg, None), s')"
      and r: "createGroups W wp minT s' (Append (sort_Sort W) list sg) ps = Inr list'"
      by blast
    from Cons.prems(2) have sgc: "contains_time sg (Time p)"
      and gc: "groups_contain (createCalls W wp minT s' (Append (sort_Sort W) list sg) ps)"
      unfolding createCalls_step [OF False c] by (simp_all add: groups_contain_def)
    from createGroups_groups [OF assms r] have "sg \<in> set list'"
      by (simp add: set_Append [OF assms])
    with sgc have "\<exists>g\<in>set list'. contains_time g (Time p)" by blast
    with Cons.IH [OF r gc] show ?thesis by simp
  qed
qed

lemma createGroups_sorted:
  assumes "sort_ok W"
  shows "createGroups W wp minT s list ps = Inr list' \<Longrightarrow> sorted_sgList list \<Longrightarrow>
         sorted_sgList list'"
proof (induction ps arbitrary: s list)
  case Nil
  then show ?case by simp
next
  case (Cons p ps)
  show ?case
  proof (cases "Time p < minT \<or> Covers list (Time p)")
    case True
    with Cons.prems have "createGroups W wp minT s list ps = Inr list'" by simp
    from Cons.IH [OF this Cons.prems(2)] show ?thesis .
  next
    case False
    from createGroups_step [OF False Cons.prems(1)] obtain sg s' where
      r: "createGroups W wp minT s' (Append (sort_Sort W) list sg) ps = Inr list'"
      by blast
    from Cons.IH [OF r sorted_Append [OF assms]] show ?thesis .
  qed
qed

lemma MapShards_Inr:
  assumes "MapShards W s wp = Inr (list, mapping)"
    and "MetaClient_RetentionPolicy W s (Database wp) (RetentionPolicy wp) = (Some rp, None)"
  shows "createGroups W wp (min_time W rp) s [] (WP_Points wp) = Inr list"
    and "mapping = mapPoints W list (NewShardMapping (length (WP_Points wp))) (WP_Points wp)"
  using assms by (auto simp: MapShards_def split: sum.splits)

section \<open>MapShards\<close>

text \<open>
  Claim C7, as amended. When \<open>MapShards\<close> returns a mapping, with the list of shard groups
  that its first loop built:
  \<^item> the bucket of every shard holds, in the order of the batch, exactly the points for
    which \<open>ShardGroupAt\<close> finds a group in the list and \<open>ShardFor\<close> picks this shard in
    the group; so no point is in two buckets and none is duplicated;
  \<^item> a point whose time no group of the list contains is in no bucket;
  \<^item> \<open>CreateShardGroup\<close> is called only for points of the batch at or after \<open>min_time\<close>,
    and when \<open>sort.Sort\<close> sorts, the list holds exactly the groups that these calls
    returned; so a point before \<open>min_time\<close> is dropped when none of these groups contains
    its time;
  \<^item> when moreover every group returned in the run contains the time it was asked for and
    no two groups returned in the run overlap, every point at or after \<open>min_time\<close> (so
    also one exactly at \<open>min_time\<close>) is in a bucket, and so is every point, also one
    before \<open>min_time\<close>, whose time a group of the list contains.
\<close>

theorem MapShards_placement:
  assumes ok: "MapShards W s wp = Inr (list, mapping)"
    and rp: "MetaClient_RetentionPolicy W s (Database wp) (RetentionPolicy wp) = (Some rp, None)"
  shows "(\<forall>k. bucket mapping k = filter (\<lambda>p. bucket_of W list p = Some k) (WP_Points wp))
       \<and> (\<forall>p k k'. p \<in> set (bucket mapping k) \<and> p \<in> set (bucket mapping k') \<longrightarrow> k = k')
       \<and> (\<forall>p\<in>set (WP_Points wp). (\<forall>g\<in>set list. \<not> contains_time g (Time p)) \<longrightarrow>
             (\<forall>k. p \<notin> set (bucket mapping k)))
       \<and> (\<forall>(t, g)\<in>set (createCalls W wp (min_time W rp) s [] (WP_Points wp)).
             \<exists>p\<in>set (WP_Points wp). min_time W rp \<le> Time p \<and> Time p = t)
       \<and> (sort_ok W \<longrightarrow>
             set list = snd ` set (createCalls W wp (min_time W rp) s [] (WP_Points wp)))
       \<and> (sort_ok W
            \<and> groups_contain (createCalls W wp (min_time W rp) s [] (WP_Points wp))
            \<and> groups_disjoint (createCalls W wp (min_time W rp) s [] (WP_Points wp)) \<longrightarrow>
             (\<forall>p\<in>set (WP_Points wp). min_time W rp \<le> Time p \<longrightarrow>
                (\<exists>k. p \<in> set (bucket mapping k)))
             \<and> (\<forall>p\<in>set (WP_Points wp). (\<exists>g\<in>set list. contains_time g (Time p)) \<longrightarrow>
                  (\<exists>k. p \<in> set (bucket mapping k))))"
proof -
  let ?calls = "createCalls W wp (min_time W rp) s [] (WP_Points wp)"
  note cg = MapShards_Inr(1) [OF ok rp]
  note mp = MapShards_Inr(2) [OF ok rp]
  have b: "bucket mapping k = filter (\<lambda>p. bucket_of W list p = Some k) (WP_Points wp)" for k
    unfolding mp using mapPoints_bucket [OF caps_ok_New, of W list "length (WP_Points wp)" "WP_Points wp" k]
    by (simp add: bucket_New)
  have u: "k = k'" if "p \<in> set (bucket mapping k)" "p \<in> set (bucket mapping k')" for p k k'
    using that by (simp add: b)
  have d: "p \<notin> set (bucket mapping k)" if "\<forall>g\<in>set list. \<not> contains_time g (Time p)" for p k
  proof -
    have "ShardGroupAt list (Time p) = None"
    proof (rule ccontr)
      assume "ShardGroupAt list (Time p) \<noteq> None"
      then obtain g where "ShardGroupAt list (Time p) = Some g" by auto
      from ShardGroupAt_Some [OF this] that show False by blast
    qed
    then show ?thesis by (simp add: b bucket_of_def)
  qed
  have t: "\<exists>p\<in>set (WP_Points wp). min_time W rp \<le> Time p \<and> Time p = t"
    if "(t, g) \<in> set ?calls" for t g
    using createCalls_times [OF cg that] .
  have g: "set list = snd ` set ?calls" if "sort_ok W"
    using createGroups_groups [OF that cg] by simp
  have w: "\<exists>k. p \<in> set (bucket mapping k)"
    if so: "sort_ok W" and gc: "groups_contain ?calls" and gd: "groups_disjoint ?calls"
      and p: "p \<in> set (WP_Points wp)" and x: "x \<in> set list" "contains_time x (Time p)" for p x
  proof -
    have sorted: "sorted_sgList list"
      using createGroups_sorted [OF so cg] by (simp add: sorted_sgList_def)
    have nonempty: "StartTime y < EndTime y" if "y \<in> set list" for y
    proof -
      from that g [OF so] obtain t where "(t, y) \<in> set ?calls" by auto
      with gc have "contains_time y t"
        unfolding groups_contain_def list_all_iff by fastforce
      then show ?thesis by (simp add: contains_time_def)
    qed
    have compat: "compatible y z" if "y \<in> set list" "z \<in> set list" for y z
    proof -
      from that g [OF so] obtain t t' where "(t, y) \<in> set ?calls" "(t', z) \<in> set ?calls"
        by auto
      with gd show ?thesis
        unfolding groups_disjoint_def list_all_iff by fastforce
    qed
    from ShardGroupAt_complete [OF sorted nonempty compat x]
    obtain sg where "ShardGroupAt list (Time p) = Some sg" by auto
    then have "bucket_of W list p = Some (ID (ShardFor W sg (HashID p)))"
      by (simp add: bucket_of_def)
    with p have "p \<in> set (bucket mapping (ID (ShardFor W sg (HashID p))))"
      by (simp add: b)
    then show ?thesis by blast
  qed
  have c: "\<exists>k. p \<in> set (bucket mapping k)"
    if so: "sort_ok W" and gc: "groups_contain ?calls" and gd: "groups_disjoint ?calls"
      and p: "p \<in> set (WP_Points wp)" and m: "min_time W rp \<le> Time p" for p
  proof -
    from createGroups_cover [OF so cg gc] p m obtain x where
      "x \<in> set list" "contains_time x (Time p)" by blast
    from w [OF so gc gd p this] show ?thesis .
  qed
  have c1: "\<forall>k. bucket mapping k = filter (\<lambda>p. bucket_of W list p = Some k) (WP_Points wp)"
    using b by blast
  have c2: "\<forall>p k k'. p \<in> set (bucket mapping k) \<and> p \<in> set (bucket mapping k') \<longrightarrow> k = k'"
    using u by blast
  have c3: "\<forall>p\<in>set (WP_Points wp). (\<forall>g\<in>set list. \<not> contains_time g (Time p)) \<longrightarrow>
             (\<forall>k. p \<notin> set (bucket mapping k))"
    using d by blast
  have c4: "\<forall>(t, g)\<in>set ?calls. \<exists>p\<in>set (WP_Points wp). min_time W rp \<le> Time p \<and> Time p = t"
  proof
    fix x assume x: "x \<in> set ?calls"
    obtain t0 g0 where e: "x = (t0, g0)" by (cases x)
    with x t [of t0 g0] show "case x of (t, g) \<Rightarrow>
        \<exists>p\<in>set (WP_Points wp). min_time W rp \<le> Time p \<and> Time p = t"
      by simp
  qed
  have c5: "sort_ok W \<longrightarrow> set list = snd ` set ?calls"
    using g by (rule impI)
  have c6: "sort_ok W \<and> groups_contain ?calls \<and> groups_disjoint ?calls \<longrightarrow>
             (\<forall>p\<in>set (WP_Points wp). min_time W rp \<le> Time p \<longrightarrow>
                (\<exists>k. p \<in> set (bucket mapping k)))
             \<and> (\<forall>p\<in>set (WP_Points wp). (\<exists>g\<in>set list. contains_time g (Time p)) \<longrightarrow>
                  (\<exists>k. p \<in> set (bucket mapping k)))"
  proof (rule impI)
    assume h: "sort_ok W \<and> groups_contain ?calls \<and> groups_disjoint ?calls"
    then have so: "sort_ok W" and gc: "groups_contain ?calls" and gd: "groups_disjoint ?calls"
      by simp_all
    have "\<exists>k. p \<in> set (bucket mapping k)"
      if "p \<in> set (WP_Points wp)" "min_time W rp \<le> Time p" for p
      using c [OF so gc gd that] .
    moreover have "\<exists>k. p \<in> set (bucket mapping k)"
      if p: "p \<in> set (WP_Points wp)" and e: "\<exists>g\<in>set list. contains_time g (Time p)" for p
    proof -
      from e obtain x where "x \<in> set list" "contains_time x (Time p)" by blast
      from w [OF so gc gd p this] show ?thesis .
    qed
    ultimately show "(\<forall>p\<in>set (WP_Points wp). min_time W rp \<le> Time p \<longrightarrow>
                (\<exists>k. p \<in> set (bucket mapping k)))
             \<and> (\<forall>p\<in>set (WP_Points wp). (\<exists>g\<in>set list. contains_time g (Time p)) \<longrightarrow>
                  (\<exists>k. p \<in> set (bucket mapping k)))"
      by blast
  qed
  show ?thesis
    by (rule conjI, rule c1, rule conjI, rule c2, rule conjI, rule c3, rule conjI, rule c4,
        rule conjI, rule c5, rule c6)
qed

subsection \<open>The example\<close>

lemma ex_world_fields:
  "MetaClient_RetentionPolicy ex_world s db rp = (Some \<lparr>RP_Name = rp, Duration = 100\<rparr>, None)"
  "MetaClient_CreateShardGroup ex_world s db rp t =
     ((Some \<lparr>SG_ID = word_of_int (t div 1000), StartTime = (t div 1000) * 1000,
              EndTime = (t div 1000) * 1000 + 1000, SG_Shards = [ex_sh]\<rparr>, None), s)"
  "time_Now ex_world = 1500"
  "sort_Sort ex_world = sort_key (\<lambda>g. (EndTime g, StartTime g))"
  "ShardFor ex_world sg h = SG_Shards sg ! (unat h mod length (SG_Shards sg))"
  by (simp_all add: ex_world_def)

lemma ex_createGroups:
  "createGroups ex_world ex_wp 1400 () [] [ex_p1, ex_p2, ex_p3] = Inr ex_list"
  by (simp add: ex_world_fields ex_wp_def ex_p1_def ex_p2_def ex_p3_def ex_list_def
      Covers_def Append_def)

lemma ex_MapShards:
  "MapShards ex_world () ex_wp =
     Inr (ex_list, mapPoints ex_world ex_list (NewShardMapping 3) [ex_p1, ex_p2, ex_p3])"
proof -
  have rp: "MetaClient_RetentionPolicy ex_world () (Database ex_wp) (RetentionPolicy ex_wp) =
              (Some \<lparr>RP_Name = ''rp'', Duration = 100\<rparr>, None)"
    by (simp add: ex_world_fields ex_wp_def)
  have mt: "min_time ex_world \<lparr>RP_Name = ''rp'', Duration = 100\<rparr> = 1400"
    by (simp add: min_time_def ex_world_fields)
  have pts: "WP_Points ex_wp = [ex_p1, ex_p2, ex_p3]"
    by (simp add: ex_wp_def)
  show ?thesis
    unfolding MapShards_def rp
    by (simp add: mt pts ex_createGroups numeral_3_eq_3 del: createGroups.simps mapPoints.simps)
qed

lemma ex_At:
  "ShardGroupAt ex_list 1400 = Some (ex_list ! 0)"
  "ShardGroupAt ex_list 1399 = Some (ex_list ! 0)"
  "ShardGroupAt ex_list 500 = None"
  by (simp_all add: ex_list_def ShardGroupAt_def Search_def Let_def)

lemma ex_bucket_of:
  "bucket_of ex_world ex_list ex_p1 = Some 1"
  "bucket_of ex_world ex_list ex_p2 = Some 1"
  "bucket_of ex_world ex_list ex_p3 = None"
  by (simp_all add: bucket_of_def ex_p1_def ex_p2_def ex_p3_def ex_At ex_world_fields)
     (simp_all add: ex_list_def ex_sh_def)

lemma not_Less_iff: "\<not> Less b a \<longleftrightarrow> (EndTime a, StartTime a) \<le> (EndTime b, StartTime b)"
  by (auto simp: Less_def less_eq_prod_def)

lemma ex_world_sort_ok: "sort_ok ex_world"
proof -
  have "sorted_sgList (sort_key (\<lambda>g. (EndTime g, StartTime g)) l)" for l
  proof -
    have "sorted (map (\<lambda>g. (EndTime g, StartTime g)) (sort_key (\<lambda>g. (EndTime g, StartTime g)) l))"
      by (rule sorted_sort_key)
    then show ?thesis
      by (simp add: sorted_sgList_def sorted_map not_Less_iff)
  qed
  then show ?thesis
    by (simp add: sort_ok_def ex_world_fields)
qed

text \<open>
  Claim C7, as stated, fails: the scope starts at 1400 and the point at 1399, one
  nanosecond before it, is not dropped. The group \<open>[1000, 2000)\<close> that was created for the
  point at 1400 contains it, and the second loop does not compare with \<open>min_time\<close>.
\<close>

theorem MapShards_keeps_expired_point:
  "min_time ex_world \<lparr>RP_Name = ''rp'', Duration = 100\<rparr> = 1400
   \<and> Time ex_p2 = 1399
   \<and> mapping_bucket (MapShards ex_world () ex_wp) 1 = Some [ex_p1, ex_p2]"
proof -
  have b: "bucket (mapPoints ex_world ex_list (NewShardMapping 3) [ex_p1, ex_p2, ex_p3]) 1
             = [ex_p1, ex_p2]"
    unfolding mapPoints_bucket [OF caps_ok_New] by (simp add: bucket_New ex_bucket_of)
  have m: "min_time ex_world \<lparr>RP_Name = ''rp'', Duration = 100\<rparr> = 1400"
    by (simp add: min_time_def ex_world_fields)
  have t: "Time ex_p2 = 1399"
    by (simp add: ex_p2_def)
  have "mapping_bucket (MapShards ex_world () ex_wp) 1 = Some [ex_p1, ex_p2]"
    unfolding ex_MapShards mapping_bucket_def using b by simp
  with m t show ?thesis by blast
qed

lemma ex_createCalls:
  "createCalls ex_world ex_wp 1400 () [] [ex_p1, ex_p2, ex_p3] =
     [(1400, \<lparr>SG_ID = 1, StartTime = 1000, EndTime = 2000, SG_Shards = [ex_sh]\<rparr>)]"
  by (simp add: ex_world_fields ex_wp_def ex_p1_def ex_p2_def ex_p3_def
      Covers_def Append_def ShardGroupAt_def Search_def Let_def)

text \<open>
  The same batch: the points at 1400 and at 1399 are in the bucket of shard 1, and the
  point at 500 is in no bucket.
\<close>

theorem MapShards_placement_witness:
  "MapShards ex_world () ex_wp =
     Inr (ex_list, mapPoints ex_world ex_list (NewShardMapping 3) [ex_p1, ex_p2, ex_p3])
   \<and> MetaClient_RetentionPolicy ex_world () (Database ex_wp) (RetentionPolicy ex_wp) =
       (Some \<lparr>RP_Name = ''rp'', Duration = 100\<rparr>, None)
   \<and> sort_ok ex_world
   \<and> groups_contain (createCalls ex_world ex_wp 1400 () [] [ex_p1, ex_p2, ex_p3])
   \<and> groups_disjoint (createCalls ex_world ex_wp 1400 () [] [ex_p1, ex_p2, ex_p3])
   \<and> ex_p1 \<in> set (WP_Points ex_wp)
   \<and> min_time ex_world \<lparr>RP_Name = ''rp'', Duration = 100\<rparr> \<le> Time ex_p1
   \<and> bucket (mapPoints ex_world ex_list (NewShardMapping 3) [ex_p1, ex_p2, ex_p3]) 1 = [ex_p1, ex_p2]
   \<and> bucket (mapPoints ex_world ex_list (NewShardMapping 3) [ex_p1, ex_p2, ex_p3]) 2 = []
   \<and> (\<exists>k. ex_p1 \<in> set (bucket (mapPoints ex_world ex_list (NewShardMapping 3) [ex_p1, ex_p2, ex_p3]) k))"
proof -
  let ?m = "mapPoints ex_world ex_list (NewShardMapping 3) [ex_p1, ex_p2, ex_p3]"
  have rp: "MetaClient_RetentionPolicy ex_world () (Database ex_wp) (RetentionPolicy ex_wp) =
              (Some \<lparr>RP_Name = ''rp'', Duration = 100\<rparr>, None)"
    by (simp add: ex_world_fields ex_wp_def)
  have pts: "WP_Points ex_wp = [ex_p1, ex_p2, ex_p3]"
    by (simp add: ex_wp_def)
  have mt: "min_time ex_world \<lparr>RP_Name = ''rp'', Duration = 100\<rparr> = 1400"
    by (simp add: min_time_def ex_world_fields)
  have t: "min_time ex_world \<lparr>RP_Name = ''rp'', Duration = 100\<rparr> \<le> Time ex_p1"
    by (simp add: mt ex_p1_def)
  have gc: "groups_contain (createCalls ex_world ex_wp 1400 () [] [ex_p1, ex_p2, ex_p3])"
    unfolding ex_createCalls by (simp add: groups_contain_def contains_time_def)
  have gd: "groups_disjoint (createCalls ex_world ex_wp 1400 () [] [ex_p1, ex_p2, ex_p3])"
    unfolding ex_createCalls by (simp add: groups_disjoint_def compatible_def)
  note T = MapShards_placement [OF ex_MapShards rp, unfolded mt pts]
  note c1 = T [THEN conjunct1]
  note c6 = T [THEN conjunct2, THEN conjunct2, THEN conjunct2, THEN conjunct2, THEN conjunct2]
  from c1 have b: "bucket ?m 1 = [ex_p1, ex_p2]" "bucket ?m 2 = []"
    by (simp_all add: ex_bucket_of)
  note placed = mp [OF c6 conjI [OF ex_world_sort_ok conjI [OF gc gd]], THEN conjunct1]
  have mem: "ex_p1 \<in> set (WP_Points ex_wp)"
    by (simp add: pts)
  have mem': "ex_p1 \<in> set [ex_p1, ex_p2, ex_p3]"
    by simp
  have tp: "1400 \<le> Time ex_p1"
    by (simp add: ex_p1_def)
  note e = mp [OF bspec [OF placed mem'] tp]
  show ?thesis
    by (rule conjI, rule ex_MapShards, rule conjI, rule rp, rule conjI, rule ex_world_sort_ok,
        rule conjI, rule gc, rule conjI, rule gd, rule conjI, rule mem, rule conjI, rule t,
        rule conjI, rule b(1), rule conjI, rule b(2), rule e)
qed

section \<open>processWriteShardRequest\<close>

lemma process_dropped:
  assumes "UnmarshalBinary buf = Inr req"
    and "WriteToShard store s (req_ShardID req) (req_Points req) = (Some ErrShardNotFound, s1)"
    and "req_Database req = '''' \<or> req_RetentionPolicy req = ''''"
  shows "processWriteShardRequest store UnmarshalBinary s buf =
           (None, s1, [CallWriteToShard (req_ShardID req) (req_Points req)])"
  using assms by (auto simp: processWriteShardRequest_def Let_def)

lemma process_create_failed:
  assumes "UnmarshalBinary buf = Inr req"
    and "WriteToShard store s (req_ShardID req) (req_Points req) = (Some ErrShardNotFound, s1)"
    and "req_Database req \<noteq> ''''" and "req_RetentionPolicy req \<noteq> ''''"
    and "CreateShard store s1 (req_Database req) (req_RetentionPolicy req) (req_ShardID req) True
           = (Some e, s2)"
  shows "processWriteShardRequest store UnmarshalBinary s buf =
           (Some (New (''create shard '' @ fmt_d (unat (req_ShardID req)) @ '': '' @ Error e)), s2,
            [CallWriteToShard (req_ShardID req) (req_Points req),
             CallCreateShard (req_Database req) (req_RetentionPolicy req) (req_ShardID req) True])"
  using assms by (simp add: processWriteShardRequest_def Let_def)

lemma process_retried:
  assumes "UnmarshalBinary buf = Inr req"
    and "WriteToShard store s (req_ShardID req) (req_Points req) = (Some ErrShardNotFound, s1)"
    and "req_Database req \<noteq> ''''" and "req_RetentionPolicy req \<noteq> ''''"
    and "CreateShard store s1 (req_Database req) (req_RetentionPolicy req) (req_ShardID req) True
           = (None, s2)"
    and "WriteToShard store s2 (req_ShardID req) (req_Points req) = (r, s3)"
  shows "processWriteShardRequest store UnmarshalBinary s buf =
           ((case r of None \<Rightarrow> None
             | Some e \<Rightarrow> Some (New (''write shard '' @ fmt_d (unat (req_ShardID req)) @ '': '' @ Error e))),
            s3,
            [CallWriteToShard (req_ShardID req) (req_Points req),
             CallCreateShard (req_Database req) (req_RetentionPolicy req) (req_ShardID req) True,
             CallWriteToShard (req_ShardID req) (req_Points req)])"
  using assms by (cases r) (simp_all add: processWriteShardRequest_def Let_def)

text \<open>
  Claim C8, as amended. When the first \<open>TSDBStore.WriteToShard\<close> of
  \<open>processWriteShardRequest\<close> returns \<open>ErrShardNotFound\<close>:
  \<^item> if the database or the retention policy of the request is empty, no other call is
    made and \<open>nil\<close> is returned;
  \<^item> otherwise \<open>CreateShard\<close> is called once, with the database, the retention policy, the
    shard and \<open>true\<close>; if it fails, its error is returned as
    \<open>create shard <id>: <err>\<close> and the write is not retried; if it succeeds, the write is
    retried once and its outcome is final: \<open>nil\<close>, or the error as
    \<open>write shard <id>: <err>\<close>.
\<close>

theorem shard_not_found_handling:
  assumes "UnmarshalBinary buf = Inr req"
    and "WriteToShard store s (req_ShardID req) (req_Points req) = (Some ErrShardNotFound, s1)"
  shows "(req_Database req = '''' \<or> req_RetentionPolicy req = '''' \<longrightarrow>
            processWriteShardRequest store UnmarshalBinary s buf =
              (None, s1, [CallWriteToShard (req_ShardID req) (req_Points req)]))
       \<and> (req_Database req \<noteq> '''' \<and> req_RetentionPolicy req \<noteq> '''' \<longrightarrow>
            (case CreateShard store s1 (req_Database req) (req_RetentionPolicy req) (req_ShardID req) True of
               (Some e, s2) \<Rightarrow>
                 processWriteShardRequest store UnmarshalBinary s buf =
                   (Some (New (''create shard '' @ fmt_d (unat (req_ShardID req)) @ '': '' @ Error e)),
                    s2,
                    [CallWriteToShard (req_ShardID req) (req_Points req),
                     CallCreateShard (req_Database req) (req_RetentionPolicy req) (req_ShardID req) True])
             | (None, s2) \<Rightarrow>
                 (case WriteToShard store s2 (req_ShardID req) (req_Points req) of
                    (r, s3) \<Rightarrow>
                      processWriteShardRequest store UnmarshalBinary s buf =
                        ((case r of
                            None \<Rightarrow> None
                          | Some e \<Rightarrow>
                              Some (New (''write shard '' @ fmt_d (unat (req_ShardID req)) @ '': ''
                                         @ Error e))),
                         s3,
                         [CallWriteToShard (req_ShardID req) (req_Points req),
                          CallCreateShard (req_Database req) (req_RetentionPolicy req)
                            (req_ShardID req) True,
                          CallWriteToShard (req_ShardID req) (req_Points req)]))))"
proof -
  have a: "processWriteShardRequest store UnmarshalBinary s buf =
             (None, s1, [CallWriteToShard (req_ShardID req) (req_Points req)])"
    if "req_Database req = '''' \<or> req_RetentionPolicy req = ''''"
    using process_dropped [of UnmarshalBinary buf req store s s1] assms that by blast
  have b: "case CreateShard store s1 (req_Database req) (req_RetentionPolicy req) (req_ShardID req) True of
               (Some e, s2) \<Rightarrow>
                 processWriteShardRequest store UnmarshalBinary s buf =
                   (Some (New (''create shard '' @ fmt_d (unat (req_ShardID req)) @ '': '' @ Error e)),
                    s2,
                    [CallWriteToShard (req_ShardID req) (req_Points req),
                     CallCreateShard (req_Database req) (req_RetentionPolicy req) (req_ShardID req) True])
             | (None, s2) \<Rightarrow>
                 (case WriteToShard store s2 (req_ShardID req) (req_Points req) of
                    (r, s3) \<Rightarrow>
                      processWriteShardRequest store UnmarshalBinary s buf =
                        ((case r of
                            None \<Rightarrow> None
                          | Some e \<Rightarrow>
                              Some (New (''write shard '' @ fmt_d (unat (req_ShardID req)) @ '': ''
                                         @ Error e))),
                         s3,
                         [CallWriteToShard (req_ShardID req) (req_Points req),
                          CallCreateShard (req_Database req) (req_RetentionPolicy req)
                            (req_ShardID req) True,
                          CallWriteToShard (req_ShardID req) (req_Points req)]))"
    if db: "req_Database req \<noteq> ''''" and rp: "req_RetentionPolicy req \<noteq> ''''"
  proof -
    obtain c s2 where c: "CreateShard store s1 (req_Database req) (req_RetentionPolicy req)
                            (req_ShardID req) True = (c, s2)"
      by (metis prod.exhaust)
    show ?thesis
    proof (cases c)
      case (Some e)
      with process_create_failed [of UnmarshalBinary buf req store s s1 e s2] assms db rp c
      show ?thesis by simp
    next
      case None
      obtain r s3 where r: "WriteToShard store s2 (req_ShardID req) (req_Points req) = (r, s3)"
        by (metis prod.exhaust)
      from process_retried [of UnmarshalBinary buf req store s s1 s2 r s3] assms db rp c None r
      show ?thesis by simp
    qed
  qed
  show ?thesis
  proof (rule conjI)
    show "req_Database req = '''' \<or> req_RetentionPolicy req = '''' \<longrightarrow>
            processWriteShardRequest store UnmarshalBinary s buf =
              (None, s1, [CallWriteToShard (req_ShardID req) (req_Points req)])"
      using a by (rule impI)
  next
    show "req_Database req \<noteq> '''' \<and> req_RetentionPolicy req \<noteq> '''' \<longrightarrow>
            (case CreateShard store s1 (req_Database req) (req_RetentionPolicy req) (req_ShardID req) True of
               (Some e, s2) \<Rightarrow>
                 processWriteShardRequest store UnmarshalBinary s buf =
                   (Some (New (''create shard '' @ fmt_d (unat (req_ShardID req)) @ '': '' @ Error e)),
                    s2,
                    [CallWriteToShard (req_ShardID req) (req_Points req),
                     CallCreateShard (req_Database req) (req_RetentionPolicy req) (req_ShardID req) True])
             | (None, s2) \<Rightarrow>
                 (case WriteToShard store s2 (req_ShardID req) (req_Points req) of
                    (r, s3) \<Rightarrow>
                      processWriteShardRequest store UnmarshalBinary s buf =
                        ((case r of
                            None \<Rightarrow> None
                          | Some e \<Rightarrow>
                              Some (New (''write shard '' @ fmt_d (unat (req_ShardID req)) @ '': ''
                                         @ Error e))),
                         s3,
                         [CallWriteToShard (req_ShardID req) (req_Points req),
                          CallCreateShard (req_Database req) (req_RetentionPolicy req)
                            (req_ShardID req) True,
                          CallWriteToShard (req_ShardID req) (req_Points req)])))"
      by (rule impI, erule conjE, rule b)
  qed
qed

text \<open>
  Claim C8, as stated, fails where \<open>CreateShard\<close> fails: the handler returns the error of
  \<open>CreateShard\<close> for shard 42 and makes no second \<open>WriteToShard\<close>.
\<close>

theorem create_shard_failure_is_not_retried:
  "WriteToShard ex_store_full [] (req_ShardID ex_req) (req_Points ex_req) = (Some ErrShardNotFound, [])
   \<and> req_Database ex_req \<noteq> '''' \<and> req_RetentionPolicy ex_req \<noteq> ''''
   \<and> processWriteShardRequest ex_store_full ex_Unmarshal [] [1] =
        (Some (New ''create shard 42: disk full''), [],
         [CallWriteToShard 42 [], CallCreateShard ''x'' ''y'' 42 True])"
  by (simp add: processWriteShardRequest_def ex_store_full_def ex_req_def ex_Unmarshal_def Let_def)

text \<open>A store that creates shard 42 on demand: one \<open>CreateShard\<close>, one retry, \<open>nil\<close>.\<close>

theorem shard_not_found_handling_witness:
  "ex_Unmarshal [1] = Inr ex_req
   \<and> WriteToShard ex_store [] (req_ShardID ex_req) (req_Points ex_req) = (Some ErrShardNotFound, [])
   \<and> req_Database ex_req \<noteq> '''' \<and> req_RetentionPolicy ex_req \<noteq> ''''
   \<and> processWriteShardRequest ex_store ex_Unmarshal [] [1] =
        (None, [42],
         [CallWriteToShard 42 [], CallCreateShard ''x'' ''y'' 42 True, CallWriteToShard 42 []])"
proof -
  have u: "ex_Unmarshal [1] = Inr ex_req"
    by (simp add: ex_Unmarshal_def)
  have w: "WriteToShard ex_store [] (req_ShardID ex_req) (req_Points ex_req) = (Some ErrShardNotFound, [])"
    by (simp add: ex_store_def)
  from shard_not_found_handling [of ex_Unmarshal "[1]" ex_req ex_store "[]" "[]"] u w show ?thesis
    by (simp add: ex_store_def ex_req_def)
qed

section \<open>Open and Close\<close>

lemma mu_state_append:
  "mu_state held (log @ log') =
     (case mu_state held log of None \<Rightarrow> None | Some held' \<Rightarrow> mu_state held' log')"
proof (induction log arbitrary: held)
  case Nil
  then show ?case by simp
next
  case (Cons a log)
  then show ?case by (cases a) simp_all
qed

lemma under_lock_append: "under_lock log \<Longrightarrow> under_lock log' \<Longrightarrow> under_lock (log @ log')"
  by (simp add: under_lock_def mu_state_append)

lemma under_lock_Open: "under_lock (snd (PointsWriter_Open closing))"
  by (simp add: under_lock_def PointsWriter_Open_def)

lemma under_lock_Close: "under_lock (snd (PointsWriter_Close closing))"
  by (simp add: under_lock_def PointsWriter_Close_def)

lemma run_under_lock: "under_lock (snd (run ops closing))"
proof (induction ops arbitrary: closing)
  case Nil
  then show ?case by (simp add: under_lock_def)
next
  case (Cons x ops)
  show ?case
  proof (cases x)
    case CallOpen
    obtain r log' where r: "run ops OpenChan = (r, log')" by (cases "run ops OpenChan")
    with Cons.IH [of OpenChan] have "under_lock log'" by simp
    with under_lock_append [OF under_lock_Open [of closing] this] CallOpen r show ?thesis
      by (simp add: PointsWriter_Open_def)
  next
    case CallClose
    obtain c log where c: "PointsWriter_Close closing = (c, log)"
      by (cases "PointsWriter_Close closing")
    with under_lock_Close [of closing] have l: "under_lock log" by simp
    show ?thesis
    proof (cases c)
      case (Inl p)
      with c l CallClose show ?thesis by simp
    next
      case (Inr closing')
      obtain r log' where r: "run ops closing' = (r, log')" by (cases "run ops closing'")
      with Cons.IH [of closing'] have "under_lock log'" by simp
      with under_lock_append [OF l this] c Inr r CallClose show ?thesis by simp
    qed
  qed
qed

lemma fst_run_Open: "fst (run (CallOpen # ops) closing) = fst (run ops OpenChan)"
  by (simp add: PointsWriter_Open_def split: prod.splits)

lemma fst_run_Close:
  "fst (run (CallClose # ops) closing) =
     (case closing of
        NilChan \<Rightarrow> fst (run ops NilChan)
      | OpenChan \<Rightarrow> fst (run ops ClosedChan)
      | ClosedChan \<Rightarrow> Inl CloseOfClosedChannel)"
  by (cases closing) (simp_all add: PointsWriter_Close_def split: prod.splits)

lemma run_from:
  "closing \<noteq> NilChan \<Longrightarrow>
   isl (fst (run ops closing))
     \<longleftrightarrow> \<not> no_double_close (if closing = ClosedChan then CallClose # ops else ops)"
proof (induction ops arbitrary: closing)
  case Nil
  then show ?case by simp
next
  case (Cons x ops)
  show ?case
  proof (cases x)
    case CallOpen
    with Cons.IH [of OpenChan] Cons.prems show ?thesis
      by (cases closing) (simp_all add: fst_run_Open del: run.simps)
  next
    case CallClose
    with Cons.IH [of ClosedChan] Cons.prems show ?thesis
      by (cases closing) (simp_all add: fst_run_Close del: run.simps)
  qed
qed

lemma run_panic:
  "closing \<noteq> NilChan \<Longrightarrow> fst (run ops closing) = Inl p \<Longrightarrow> p = CloseOfClosedChannel"
proof (induction ops arbitrary: closing)
  case Nil
  then show ?case by simp
next
  case (Cons x ops)
  show ?case
  proof (cases x)
    case CallOpen
    with Cons.IH [of OpenChan] Cons.prems show ?thesis
      by (simp add: fst_run_Open del: run.simps)
  next
    case CallClose
    with Cons.IH [of ClosedChan] Cons.prems show ?thesis
      by (cases closing) (simp_all add: fst_run_Close del: run.simps)
  qed
qed

text \<open>
  Claim C9, as amended. For every sequence of \<open>Open\<close> and \<open>Close\<close> calls on a
  \<open>PointsWriter\<close>, every closing of the channel \<open>closing\<close> is guarded by the write lock:
  \<open>Close\<close> locks \<open>mu\<close>, closes the channel when it is not \<open>nil\<close>, and unlocks, also when
  the closing panics. \<open>Close\<close> has no guard against a second closing: on a closed channel it
  calls \<open>close\<close> again and panics. So a sequence on a new \<open>PointsWriter\<close> panics exactly
  when a \<open>Close\<close> directly follows a \<open>Close\<close>, with the panic of closing a closed channel.
  \<open>Service.Close\<close> closes the channel without taking a lock; on a new \<open>Service\<close> the
  first \<open>Close\<close> closes the channel and the second one panics.
\<close>

theorem Close_twice_panics:
  "(isl (fst (run ops NewPointsWriter)) \<longleftrightarrow> \<not> no_double_close ops)
   \<and> (fst (run ops NewPointsWriter) = Inl p \<longrightarrow> p = CloseOfClosedChannel)
   \<and> under_lock (snd (run ops closing))
   \<and> PointsWriter_Close OpenChan = (Inr ClosedChan, [Lock, CloseChan, Unlock])
   \<and> PointsWriter_Close NilChan = (Inr NilChan, [Lock, Unlock])
   \<and> PointsWriter_Close ClosedChan = (Inl CloseOfClosedChannel, [Lock, CloseChan, Unlock])
   \<and> fst (Service_Closes 1 listener NewService) = Inr ClosedChan
   \<and> fst (Service_Closes (Suc (Suc n)) listener NewService) = Inl CloseOfClosedChannel
   \<and> Lock \<notin> set (snd (Service_Close listener closing))
   \<and> \<not> under_lock (snd (Service_Close listener closing))"
proof -
  have a: "isl (fst (run ops NewPointsWriter)) \<longleftrightarrow> \<not> no_double_close ops"
    using run_from [of OpenChan ops] by (simp add: NewPointsWriter_def)
  have b: "p = CloseOfClosedChannel" if "fst (run ops NewPointsWriter) = Inl p"
    using run_panic [of OpenChan ops p] that by (simp add: NewPointsWriter_def)
  have c: "PointsWriter_Close OpenChan = (Inr ClosedChan, [Lock, CloseChan, Unlock])"
    "PointsWriter_Close NilChan = (Inr NilChan, [Lock, Unlock])"
    "PointsWriter_Close ClosedChan = (Inl CloseOfClosedChannel, [Lock, CloseChan, Unlock])"
    by (simp_all add: PointsWriter_Close_def)
  have d: "fst (Service_Closes 1 listener NewService) = Inr ClosedChan"
    "fst (Service_Closes (Suc (Suc n)) listener NewService) = Inl CloseOfClosedChannel"
    by (simp_all add: NewService_def Service_Close_def)
  have e: "Lock \<notin> set (snd (Service_Close listener closing))"
    "\<not> under_lock (snd (Service_Close listener closing))"
    by (cases closing; simp add: Service_Close_def under_lock_def)+
  from a b c d e run_under_lock [of ops closing] show ?thesis by blast
qed

text \<open>
  Claim C9, as stated, fails: the second of two \<open>Close\<close> calls closes a closed channel, on
  a \<open>PointsWriter\<close> and on a \<open>Service\<close>.
\<close>

theorem second_Close_panics:
  "fst (run [CallClose, CallClose] NewPointsWriter) = Inl CloseOfClosedChannel
   \<and> fst (Service_Closes 2 True NewService) = Inl CloseOfClosedChannel"
  by (simp add: NewPointsWriter_def NewService_def PointsWriter_Close_def Service_Close_def
      numeral_2_eq_2)

text \<open>
  \<open>Open\<close>, \<open>Close\<close>, \<open>Close\<close> panics at the second \<open>Close\<close>, each step under the lock;
  \<open>Close\<close>, \<open>Open\<close>, \<open>Close\<close> does not panic.
\<close>

theorem Close_twice_panics_witness:
  "run [CallOpen, CallClose, CallClose] NewPointsWriter =
     (Inl CloseOfClosedChannel,
      [Lock, MakeChan, Unlock, Lock, CloseChan, Unlock, Lock, CloseChan, Unlock])
   \<and> \<not> isl (fst (run [CallClose, CallOpen, CallClose] NewPointsWriter))
   \<and> under_lock (snd (run [CallOpen, CallClose, CallClose] NewPointsWriter))"
proof -
  have "isl (fst (run [CallOpen, CallClose, CallClose] NewPointsWriter))"
    using Close_twice_panics [of "[CallOpen, CallClose, CallClose]" CloseOfClosedChannel
        NewPointsWriter True 0]
    by simp
  then obtain p where p: "fst (run [CallOpen, CallClose, CallClose] NewPointsWriter) = Inl p"
    by (cases "fst (run [CallOpen, CallClose, CallClose] NewPointsWriter)") auto
  with Close_twice_panics [of "[CallOpen, CallClose, CallClose]" p NewPointsWriter True 0]
  have q: "p = CloseOfClosedChannel" by blast
  have l: "snd (run [CallOpen, CallClose, CallClose] NewPointsWriter) =
             [Lock, MakeChan, Unlock, Lock, CloseChan, Unlock, Lock, CloseChan, Unlock]"
    by (simp add: NewPointsWriter_def PointsWriter_Open_def PointsWriter_Close_def)
  have u: "under_lock (snd (run [CallOpen, CallClose, CallClose] NewPointsWriter))"
    using Close_twice_panics [of "[CallOpen, CallClose, CallClose]" CloseOfClosedChannel
        NewPointsWriter True 0]
    by blast
  have n: "\<not> isl (fst (run [CallClose, CallOpen, CallClose] NewPointsWriter))"
    using Close_twice_panics [of "[CallClose, CallOpen, CallClose]" CloseOfClosedChannel
        NewPointsWriter True 0]
    by simp
  from p q l have "run [CallOpen, CallClose, CallClose] NewPointsWriter =
     (Inl CloseOfClosedChannel,
      [Lock, MakeChan, Unlock, Lock, CloseChan, Unlock, Lock, CloseChan, Unlock])"
    by (simp add: prod_eq_iff)
  with n u show ?thesis by blast
qed

end
